theory Spec2Isabelle
  imports Main "HOL-Library.Multiset" "HOL-Library.Sublist"
begin

section \<open>Data model (app.py, classes User, Deck, Card)\<close>

text \<open>
  The three ORM classes are the rows of three tables.  A column declared
  \<open>nullable=False\<close> holds a value, every other column holds an optional value
  (SQL NULL is \<open>None\<close>).  Primary keys are Python integers.  Strings are the
  texts as SQLite stores them (UTF-8 bytes, one \<open>char\<close> per byte).
\<close>

record user =
  u_id :: int
  u_name :: "string option"
  u_email :: string
  u_password :: string

record deck =
  d_id :: int
  d_name :: string
  d_user_id :: "int option"

record card =
  c_id :: int
  c_user_id :: "int option"
  c_word :: string
  c_translation :: string
  c_tip :: "string option"
  c_deck_id :: "int option"

text \<open>
  The database \<open>linguist.db\<close>: each table is the list of its rows in rowid order.
  Every accessor opens its own session, commits and closes it, so an accessor is a
  function from the database to its result and the database after the commit.
\<close>

record db =
  users :: "user list"
  decks :: "deck list"
  cards :: "card list"

text \<open>\<open>Card.to_dict\<close>: the value record of a card (id, word, translation, tip).\<close>

record card_dict =
  cd_id :: int
  cd_word :: string
  cd_translation :: string
  cd_tip :: "string option"

definition to_dict :: "card \<Rightarrow> card_dict" where
  "to_dict c = \<lparr>cd_id = c_id c, cd_word = c_word c,
                 cd_translation = c_translation c, cd_tip = c_tip c\<rparr>"

text \<open>
  \<open>pwd_context\<close> is passlib's bcrypt context, a library outside the repository.  It is a
  parameter of the model: \<open>pwd_hash salt password\<close> is the hash string produced with the
  salt drawn for this call, \<open>pwd_verify password stored\<close> is the verification.
\<close>

record pwd_context =
  pwd_hash :: "string \<Rightarrow> string \<Rightarrow> string"
  pwd_verify :: "string \<Rightarrow> string \<Rightarrow> bool"

section \<open>Session primitives\<close>

text \<open>
  An \<open>Integer\<close> primary key of SQLite is the rowid: an inserted row gets the largest
  rowid of the table plus one, and 1 in an empty table.
\<close>

definition next_id :: "int list \<Rightarrow> int" where
  "next_id ids = (case ids of [] \<Rightarrow> 1 | x # xs \<Rightarrow> fold max xs x + 1)"

text \<open>\<open>session.get(Model, id)\<close>: the row with that primary key, or \<open>None\<close>.\<close>

definition get_user :: "db \<Rightarrow> int \<Rightarrow> user option" where
  "get_user s i = find (\<lambda>u. u_id u = i) (users s)"

definition get_deck :: "db \<Rightarrow> int \<Rightarrow> deck option" where
  "get_deck s i = find (\<lambda>d. d_id d = i) (decks s)"

definition get_card :: "db \<Rightarrow> int \<Rightarrow> card option" where
  "get_card s i = find (\<lambda>c. c_id c = i) (cards s)"

text \<open>
  The relationship collections.  \<open>deck.cards\<close> are the cards whose \<open>deck_id\<close> is the
  deck's id; \<open>user.decks\<close> and \<open>user.cards\<close> are the rows whose \<open>user_id\<close> is the
  user's id.
\<close>

definition deck_cards :: "db \<Rightarrow> int \<Rightarrow> card list" where
  "deck_cards s i = filter (\<lambda>c. c_deck_id c = Some i) (cards s)"

definition user_decks :: "db \<Rightarrow> int \<Rightarrow> deck list" where
  "user_decks s i = filter (\<lambda>d. d_user_id d = Some i) (decks s)"

definition user_cards :: "db \<Rightarrow> int \<Rightarrow> card list" where
  "user_cards s i = filter (\<lambda>c. c_user_id c = Some i) (cards s)"

text \<open>
  \<open>session.delete(deck)\<close> with \<open>cascade="all, delete-orphan"\<close> on \<open>Deck.cards\<close>: the
  unit of work deletes the deck's row and the rows of \<open>deck.cards\<close>.
\<close>

definition delete_deck_row :: "db \<Rightarrow> int \<Rightarrow> db" where
  "delete_deck_row s i =
     s\<lparr>decks := filter (\<lambda>d. d_id d \<noteq> i) (decks s),
       cards := filter (\<lambda>c. c_deck_id c \<noteq> Some i) (cards s)\<rparr>"

text \<open>
  \<open>session.delete(user)\<close> with the cascades on \<open>User.decks\<close> and \<open>User.cards\<close>: the
  user's row, the rows of \<open>user.decks\<close>, through each of them the rows of its
  \<open>deck.cards\<close>, and the rows of \<open>user.cards\<close>.
\<close>

definition delete_user_row :: "db \<Rightarrow> int \<Rightarrow> db" where
  "delete_user_row s i =
     (let gone = map d_id (user_decks s i) in
      s\<lparr>users := filter (\<lambda>u. u_id u \<noteq> i) (users s),
        decks := filter (\<lambda>d. d_user_id d \<noteq> Some i) (decks s),
        cards := filter (\<lambda>c. c_user_id c \<noteq> Some i \<and>
                               (case c_deck_id c of None \<Rightarrow> True
                                | Some k \<Rightarrow> k \<notin> set gone)) (cards s)\<rparr>)"

section \<open>CRUD accessors\<close>

definition user_get_by_id :: "db \<Rightarrow> int \<Rightarrow> user option" where
  "user_get_by_id s user_id = get_user s user_id"

definition user_get_by_email :: "db \<Rightarrow> string \<Rightarrow> user option" where
  "user_get_by_email s email = find (\<lambda>u. u_email u = email) (users s)"

definition user_create ::
  "pwd_context \<Rightarrow> string \<Rightarrow> db \<Rightarrow> string option \<Rightarrow> string \<Rightarrow> string \<Rightarrow> user option \<times> db" where
  "user_create ctx salt s name email password =
     (case find (\<lambda>u. u_email u = email) (users s) of
        Some existing_user \<Rightarrow> (None, s)
      | None \<Rightarrow>
          (let hashed_password = pwd_hash ctx salt password;
               new_user = \<lparr>u_id = next_id (map u_id (users s)), u_name = name,
                           u_email = email, u_password = hashed_password\<rparr>
           in (Some new_user, s\<lparr>users := users s @ [new_user]\<rparr>)))"

definition user_update_name :: "db \<Rightarrow> int \<Rightarrow> string option \<Rightarrow> user option \<times> db" where
  "user_update_name s user_id name =
     (case get_user s user_id of
        Some u \<Rightarrow>
          (let u' = u\<lparr>u_name := name\<rparr>
           in (Some u', s\<lparr>users := map (\<lambda>x. if u_id x = user_id then u' else x) (users s)\<rparr>))
      | None \<Rightarrow> (None, s))"

definition user_change_password ::
  "pwd_context \<Rightarrow> string \<Rightarrow> db \<Rightarrow> int \<Rightarrow> string \<Rightarrow> string \<Rightarrow> bool \<times> db" where
  "user_change_password ctx salt s user_id old_password new_password =
     (case get_user s user_id of
        Some u \<Rightarrow>
          (if pwd_verify ctx old_password (u_password u)
           then (let u' = u\<lparr>u_password := pwd_hash ctx salt new_password\<rparr>
                 in (True, s\<lparr>users := map (\<lambda>x. if u_id x = user_id then u' else x) (users s)\<rparr>))
           else (False, s))
      | None \<Rightarrow> (False, s))"

definition user_delete_by_id :: "db \<Rightarrow> int \<Rightarrow> bool \<times> db" where
  "user_delete_by_id s user_id =
     (case get_user s user_id of
        Some u \<Rightarrow> (True, delete_user_row s user_id)
      | None \<Rightarrow> (False, s))"

definition deck_create :: "db \<Rightarrow> string \<Rightarrow> int option \<Rightarrow> deck \<times> db" where
  "deck_create s name user_id =
     (let new_deck = \<lparr>d_id = next_id (map d_id (decks s)), d_name = name,
                      d_user_id = user_id\<rparr>
      in (new_deck, s\<lparr>decks := decks s @ [new_deck]\<rparr>))"

definition deck_get_by_id :: "db \<Rightarrow> int \<Rightarrow> deck option" where
  "deck_get_by_id s deck_id = get_deck s deck_id"

definition deck_update :: "db \<Rightarrow> int \<Rightarrow> string \<Rightarrow> deck option \<times> db" where
  "deck_update s deck_id name =
     (case get_deck s deck_id of
        Some d \<Rightarrow>
          (let d' = d\<lparr>d_name := name\<rparr>
           in (Some d', s\<lparr>decks := map (\<lambda>x. if d_id x = deck_id then d' else x) (decks s)\<rparr>))
      | None \<Rightarrow> (None, s))"

definition deck_delete_by_id :: "db \<Rightarrow> int \<Rightarrow> bool \<times> db" where
  "deck_delete_by_id s deck_id =
     (case get_deck s deck_id of
        Some d \<Rightarrow> (True, delete_deck_row s deck_id)
      | None \<Rightarrow> (False, s))"

definition card_create ::
  "db \<Rightarrow> int option \<Rightarrow> string \<Rightarrow> string \<Rightarrow> string option \<Rightarrow> int option \<Rightarrow> card \<times> db" where
  "card_create s user_id word translation tip deck_id =
     (let new_card = \<lparr>c_id = next_id (map c_id (cards s)), c_user_id = user_id,
                      c_word = word, c_translation = translation, c_tip = tip,
                      c_deck_id = deck_id\<rparr>
      in (new_card, s\<lparr>cards := cards s @ [new_card]\<rparr>))"

definition card_get_by_id :: "db \<Rightarrow> int \<Rightarrow> card option" where
  "card_get_by_id s card_id = get_card s card_id"

text \<open>
  \<open>card_update\<close>: the three \<open>if ... is not None\<close> assignments, in the source's order.
\<close>

definition set_fields :: "card \<Rightarrow> string option \<Rightarrow> string option \<Rightarrow> string option \<Rightarrow> card" where
  "set_fields c word translation tip =
     (let c1 = (case word of Some w \<Rightarrow> c\<lparr>c_word := w\<rparr> | None \<Rightarrow> c);
          c2 = (case translation of Some t \<Rightarrow> c1\<lparr>c_translation := t\<rparr> | None \<Rightarrow> c1);
          c3 = (case tip of Some p \<Rightarrow> c2\<lparr>c_tip := Some p\<rparr> | None \<Rightarrow> c2)
      in c3)"

definition card_update ::
  "db \<Rightarrow> int \<Rightarrow> string option \<Rightarrow> string option \<Rightarrow> string option \<Rightarrow> card option \<times> db" where
  "card_update s card_id word translation tip =
     (case get_card s card_id of
        Some c \<Rightarrow>
          (let c' = set_fields c word translation tip
           in (Some c', s\<lparr>cards := map (\<lambda>x. if c_id x = card_id then c' else x) (cards s)\<rparr>))
      | None \<Rightarrow> (None, s))"

definition card_delete_by_id :: "db \<Rightarrow> int \<Rightarrow> bool \<times> db" where
  "card_delete_by_id s card_id =
     (case get_card s card_id of
        Some c \<Rightarrow> (True, s\<lparr>cards := filter (\<lambda>x. c_id x \<noteq> card_id) (cards s)\<rparr>)
      | None \<Rightarrow> (False, s))"

section \<open>Filtering cards: \<open>card_filter\<close>\<close>

text \<open>
  \<open>Card.word.ilike(search_term)\<close> is rendered for SQLite as
  \<open>lower(cards.word) LIKE lower(?)\<close>.  SQLite's \<open>lower\<close> folds the ASCII letters only.
\<close>

definition sql_lower_char :: "char \<Rightarrow> char" where
  "sql_lower_char c =
     (let n = (of_char c :: nat) in if 65 \<le> n \<and> n \<le> 90 then char_of (n + 32) else c)"

definition sql_lower :: "string \<Rightarrow> string" where
  "sql_lower t = map sql_lower_char t"

text \<open>
  \<open>_\<close> of a LIKE pattern matches one character of the text: one byte, and when that byte
  is at least \<open>0xC0\<close> (the first byte of a multi-byte UTF-8 character) the continuation
  bytes \<open>0x80..0xBF\<close> after it.
\<close>

definition utf8_skip :: "string \<Rightarrow> string" where
  "utf8_skip t =
     (case t of [] \<Rightarrow> []
      | c # cs \<Rightarrow>
          if (192::nat) \<le> of_char c
          then dropWhile (\<lambda>b. (128::nat) \<le> of_char b \<and> of_char b < (192::nat)) cs
          else cs)"

text \<open>
  SQLite's LIKE with no ESCAPE clause: \<open>%\<close> matches any run of characters (also the
  empty one), \<open>_\<close> matches exactly one character, every other character matches
  itself, ASCII letters without regard to case.
\<close>

fun sql_like :: "string \<Rightarrow> string \<Rightarrow> bool" where
  "sql_like [] t = (t = [])"
| "sql_like (p # ps) [] = (p = CHR ''%'' \<and> sql_like ps [])"
| "sql_like (p # ps) (c # cs) =
     (if p = CHR ''%'' then sql_like ps (c # cs) \<or> sql_like (p # ps) cs
      else if p = CHR ''_'' then sql_like ps (utf8_skip (c # cs))
      else sql_lower_char p = sql_lower_char c \<and> sql_like ps cs)"

definition ilike :: "string \<Rightarrow> string \<Rightarrow> bool" where
  "ilike column pattern = sql_like (sql_lower pattern) (sql_lower column)"

text \<open>
  \<open>card_filter\<close>: the \<open>or_\<close> of the three \<open>ilike\<close> tests over all cards.  On a NULL tip
  the test is NULL, and a row whose WHERE clause is NULL or false is not selected.
\<close>

definition card_filter :: "db \<Rightarrow> string \<Rightarrow> card list" where
  "card_filter s sub_word =
     (let search_term = ''%'' @ sub_word @ ''%'' in
      filter (\<lambda>c. ilike (c_word c) search_term \<or>
                   ilike (c_translation c) search_term \<or>
                   (case c_tip c of None \<Rightarrow> False | Some t \<Rightarrow> ilike t search_term))
             (cards s))"

text \<open>
  The match as the specification words it: \<open>sub\<close> occurs in \<open>t\<close> as a substring (a
  contiguous run of its characters), letters compared without regard to case.  The case
  folding is the one the database engine has, of the ASCII letters.
\<close>

definition occurs_in :: "string \<Rightarrow> string \<Rightarrow> bool" where
  "occurs_in sub t = sublist (sql_lower sub) (sql_lower t)"

section \<open>Shuffling: \<open>random.shuffle\<close>\<close>

text \<open>
  \<open>random.shuffle(x)\<close> runs \<open>for i in reversed(range(1, len(x)))\<close> with
  \<open>j = randbelow(i + 1)\<close> and \<open>x[i], x[j] = x[j], x[i]\<close>.  The generator is a parameter:
  \<open>rnd i\<close> is the number it draws in the iteration with index \<open>i\<close>, and \<open>randbelow\<close>
  yields a number below its argument.
\<close>

definition randbelow :: "nat \<Rightarrow> nat \<Rightarrow> nat" where
  "randbelow r n = r mod n"

fun shuffle_loop :: "(nat \<Rightarrow> nat) \<Rightarrow> nat \<Rightarrow> 'a list \<Rightarrow> 'a list" where
  "shuffle_loop rnd 0 x = x"
| "shuffle_loop rnd (Suc i) x =
     (let j = randbelow (rnd (Suc i)) (Suc i + 1)
      in shuffle_loop rnd i (x[Suc i := x ! j, j := x ! Suc i]))"

definition shuffle :: "(nat \<Rightarrow> nat) \<Rightarrow> 'a list \<Rightarrow> 'a list" where
  "shuffle rnd x = shuffle_loop rnd (length x - 1) x"

section \<open>Request handlers\<close>

text \<open>
  The flashed messages, by what they say: "deck not found or you have no access",
  "card not found or you have no access", "card added", "word and translation are
  required", "card updated", "card deleted", "deck added", "the deck name cannot be
  empty", "deck and all its cards deleted", "a user with this email already exists",
  "registered and logged in", "registration failed".
\<close>

datatype message =
    Deck_not_found_or_no_access
  | Card_not_found_or_no_access
  | Card_added
  | Word_and_translation_required
  | Card_updated
  | Card_deleted
  | Deck_added
  | Deck_name_empty
  | Deck_deleted
  | Email_exists
  | Registered
  | Registration_failed

datatype category = Danger | Success

text \<open>
  What a handler answers.  \<open>Redirect\<close> carries the endpoint of \<open>url_for\<close>;
  \<open>Render_*\<close> the template with its arguments.  \<open>Bad_request\<close> is the 400 answer to
  \<open>request.form[key]\<close> on an absent key (\<open>BadRequestKeyError\<close>), \<open>Server_error\<close> the
  500 answer to an exception that no one handles.
\<close>

datatype endpoint = Index | Register_page | Show_cards_in_deck int

datatype reply =
    Redirect endpoint
  | Render_decks "deck list"
  | Render_cards deck "card list"
  | Render_edit_card card
  | Render_review deck "card_dict list"
  | Render_register
  | Bad_request
  | Server_error

type_synonym response = "(message \<times> category) list \<times> reply"

text \<open>\<open>request.form\<close>: \<open>form k\<close> is \<open>request.form.get(k)\<close>.\<close>

type_synonym form = "string \<Rightarrow> string option"

text \<open>
  \<open>url_for("show_cards_in_deck", deck_id=v)\<close> cannot build the URL when \<open>v\<close> is
  \<open>None\<close> and raises \<open>BuildError\<close>.
\<close>

definition redirect_show_cards :: "int option \<Rightarrow> reply" where
  "redirect_show_cards v =
     (case v of None \<Rightarrow> Server_error | Some k \<Rightarrow> Redirect (Show_cards_in_deck k))"

text \<open>
  Every handler below is \<open>@login_required\<close>; \<open>cur\<close> is \<open>current_user.id\<close>, the id of
  the authenticated user.  The source's local \<open>card\<close> is written \<open>card0\<close> (\<open>card\<close> is
  the cardinality of a set in HOL).
\<close>

definition index :: "db \<Rightarrow> int \<Rightarrow> response \<times> db" where
  "index s cur = (([], Render_decks (user_decks s cur)), s)"

definition show_cards_in_deck :: "db \<Rightarrow> int \<Rightarrow> int \<Rightarrow> response \<times> db" where
  "show_cards_in_deck s cur deck_id =
     (case get_deck s deck_id of
        None \<Rightarrow> (([(Deck_not_found_or_no_access, Danger)], Redirect Index), s)
      | Some deck \<Rightarrow>
          if d_user_id deck \<noteq> Some cur
          then (([(Deck_not_found_or_no_access, Danger)], Redirect Index), s)
          else (([], Render_cards deck (deck_cards s (d_id deck))), s))"

definition add_card_to_deck :: "db \<Rightarrow> int \<Rightarrow> int \<Rightarrow> form \<Rightarrow> response \<times> db" where
  "add_card_to_deck s cur deck_id form =
     (case form ''word'' of
        None \<Rightarrow> (([], Bad_request), s)
      | Some word \<Rightarrow>
     (case form ''translation'' of
        None \<Rightarrow> (([], Bad_request), s)
      | Some translation \<Rightarrow>
     (let tip = form ''tip'' in
      case get_deck s deck_id of
        None \<Rightarrow> (([(Deck_not_found_or_no_access, Danger)], Redirect Index), s)
      | Some deck \<Rightarrow>
          if d_user_id deck \<noteq> Some cur
          then (([(Deck_not_found_or_no_access, Danger)], Redirect Index), s)
          else if word \<noteq> [] \<and> translation \<noteq> []
          then (([(Card_added, Success)], Redirect (Show_cards_in_deck deck_id)),
                snd (card_create s (Some cur) word translation tip (Some deck_id)))
          else (([(Word_and_translation_required, Danger)],
                 Redirect (Show_cards_in_deck deck_id)), s))))"

definition edit_card :: "db \<Rightarrow> int \<Rightarrow> int \<Rightarrow> response \<times> db" where
  "edit_card s cur card_id =
     (case get_card s card_id of
        None \<Rightarrow> (([(Card_not_found_or_no_access, Danger)], Redirect Index), s)
      | Some card0 \<Rightarrow>
          if c_user_id card0 \<noteq> Some cur
          then (([(Card_not_found_or_no_access, Danger)], Redirect Index), s)
          else (([], Render_edit_card card0), s))"

definition update_card :: "db \<Rightarrow> int \<Rightarrow> int \<Rightarrow> form \<Rightarrow> response \<times> db" where
  "update_card s cur card_id form =
     (let word = form ''word''; translation = form ''translation''; tip = form ''tip'' in
      case get_card s card_id of
        None \<Rightarrow> (([(Card_not_found_or_no_access, Danger)], Redirect Index), s)
      | Some card0 \<Rightarrow>
          if c_user_id card0 \<noteq> Some cur
          then (([(Card_not_found_or_no_access, Danger)], Redirect Index), s)
          else (([(Card_updated, Success)], redirect_show_cards (c_deck_id card0)),
                snd (card_update s card_id word translation tip)))"

definition delete_card :: "db \<Rightarrow> int \<Rightarrow> int \<Rightarrow> response \<times> db" where
  "delete_card s cur card_id =
     (case get_card s card_id of
        None \<Rightarrow> (([(Card_not_found_or_no_access, Danger)], Redirect Index), s)
      | Some card0 \<Rightarrow>
          if c_user_id card0 \<noteq> Some cur
          then (([(Card_not_found_or_no_access, Danger)], Redirect Index), s)
          else (let deck_id = c_deck_id card0
                in (([(Card_deleted, Success)], redirect_show_cards deck_id),
                    snd (card_delete_by_id s card_id))))"

definition add_deck :: "db \<Rightarrow> int \<Rightarrow> form \<Rightarrow> response \<times> db" where
  "add_deck s cur form =
     (case form ''deck_name'' of
        None \<Rightarrow> (([(Deck_name_empty, Danger)], Redirect Index), s)
      | Some deck_name \<Rightarrow>
          if deck_name \<noteq> []
          then (([(Deck_added, Success)], Redirect Index),
                snd (deck_create s deck_name (Some cur)))
          else (([(Deck_name_empty, Danger)], Redirect Index), s))"

definition delete_deck :: "db \<Rightarrow> int \<Rightarrow> int \<Rightarrow> response \<times> db" where
  "delete_deck s cur deck_id =
     (case get_deck s deck_id of
        None \<Rightarrow> (([(Deck_not_found_or_no_access, Danger)], Redirect Index), s)
      | Some deck \<Rightarrow>
          if d_user_id deck \<noteq> Some cur
          then (([(Deck_not_found_or_no_access, Danger)], Redirect Index), s)
          else (([(Deck_deleted, Success)], Redirect Index),
                snd (deck_delete_by_id s deck_id)))"

definition review_deck :: "(nat \<Rightarrow> nat) \<Rightarrow> db \<Rightarrow> int \<Rightarrow> int \<Rightarrow> response \<times> db" where
  "review_deck rnd s cur deck_id =
     (case get_deck s deck_id of
        None \<Rightarrow> (([(Deck_not_found_or_no_access, Danger)], Redirect Index), s)
      | Some deck \<Rightarrow>
          if d_user_id deck \<noteq> Some cur
          then (([(Deck_not_found_or_no_access, Danger)], Redirect Index), s)
          else (let cards = map to_dict (deck_cards s (d_id deck))
                in (([], Render_review deck (shuffle rnd cards)), s)))"

text \<open>
  \<open>register\<close> on a POST.  Without an email, \<open>user_get_by_email(None)\<close> finds no row and
  \<open>user_create\<close> raises (the hash of no password, or the NOT NULL constraint at the
  commit); without a password \<open>pwd_context.hash(None)\<close> raises.  The session of
  \<open>user_create\<close> is rolled back, the database stays as it was.
\<close>

definition register :: "pwd_context \<Rightarrow> string \<Rightarrow> db \<Rightarrow> form \<Rightarrow> response \<times> db" where
  "register ctx salt s form =
     (let name = form ''name''; email = form ''email''; password = form ''password'' in
      case email of
        None \<Rightarrow> (([], Server_error), s)
      | Some e \<Rightarrow>
          if user_get_by_email s e \<noteq> None
          then (([(Email_exists, Danger)], Redirect Register_page), s)
          else (case password of
                  None \<Rightarrow> (([], Server_error), s)
                | Some p \<Rightarrow>
                    (case user_create ctx salt s name e p of
                       (Some u, s') \<Rightarrow> (([(Registered, Success)], Redirect Index), s')
                     | (None, s') \<Rightarrow> (([(Registration_failed, Danger)], Render_register), s'))))"

section \<open>The transitions of the database\<close>

text \<open>
  Every function of app.py that opens a session, as one operation with its arguments.
  \<open>setup_database\<close> is \<open>user_create\<close>, \<open>deck_create\<close> and two \<open>card_create\<close> on the
  empty database.
\<close>

datatype op =
    User_create string "string option" string string
  | User_update_name int "string option"
  | User_change_password string int string string
  | User_delete_by_id int
  | Deck_create string "int option"
  | Deck_update int string
  | Deck_delete_by_id int
  | Card_create "int option" string string "string option" "int option"
  | Card_update int "string option" "string option" "string option"
  | Card_delete_by_id int
  | Register string form
  | Show_cards int int
  | Add_card_to_deck int int form
  | Edit_card int int
  | Update_card int int form
  | Delete_card int int
  | Add_deck int form
  | Delete_deck int int
  | Review_deck "nat \<Rightarrow> nat" int int

fun step :: "pwd_context \<Rightarrow> db \<Rightarrow> op \<Rightarrow> db" where
  "step ctx s (User_create salt name email password) =
     snd (user_create ctx salt s name email password)"
| "step ctx s (User_update_name user_id name) = snd (user_update_name s user_id name)"
| "step ctx s (User_change_password salt user_id old_password new_password) =
     snd (user_change_password ctx salt s user_id old_password new_password)"
| "step ctx s (User_delete_by_id user_id) = snd (user_delete_by_id s user_id)"
| "step ctx s (Deck_create name user_id) = snd (deck_create s name user_id)"
| "step ctx s (Deck_update deck_id name) = snd (deck_update s deck_id name)"
| "step ctx s (Deck_delete_by_id deck_id) = snd (deck_delete_by_id s deck_id)"
| "step ctx s (Card_create user_id word translation tip deck_id) =
     snd (card_create s user_id word translation tip deck_id)"
| "step ctx s (Card_update card_id word translation tip) =
     snd (card_update s card_id word translation tip)"
| "step ctx s (Card_delete_by_id card_id) = snd (card_delete_by_id s card_id)"
| "step ctx s (Register salt form) = snd (register ctx salt s form)"
| "step ctx s (Show_cards cur deck_id) = snd (show_cards_in_deck s cur deck_id)"
| "step ctx s (Add_card_to_deck cur deck_id form) = snd (add_card_to_deck s cur deck_id form)"
| "step ctx s (Edit_card cur card_id) = snd (edit_card s cur card_id)"
| "step ctx s (Update_card cur card_id form) = snd (update_card s cur card_id form)"
| "step ctx s (Delete_card cur card_id) = snd (delete_card s cur card_id)"
| "step ctx s (Add_deck cur form) = snd (add_deck s cur form)"
| "step ctx s (Delete_deck cur deck_id) = snd (delete_deck s cur deck_id)"
| "step ctx s (Review_deck rnd cur deck_id) = snd (review_deck rnd s cur deck_id)"

text \<open>\<open>Base.metadata.create_all(engine)\<close> on a new file: three empty tables.\<close>

definition empty_db :: db where
  "empty_db = \<lparr>users = [], decks = [], cards = []\<rparr>"

inductive reachable :: "pwd_context \<Rightarrow> db \<Rightarrow> bool" for ctx :: pwd_context where
  reachable_empty: "reachable ctx empty_db"
| reachable_step: "reachable ctx s \<Longrightarrow> reachable ctx (step ctx s a)"

text \<open>The primary keys: no two rows of a table have the same id.\<close>

definition pk_unique :: "db \<Rightarrow> bool" where
  "pk_unique s \<longleftrightarrow>
     distinct (map u_id (users s)) \<and> distinct (map d_id (decks s)) \<and>
     distinct (map c_id (cards s))"

text \<open>
  Referential integrity: every foreign key that is not NULL names a row that exists.
  SQLite does not enforce it (no \<open>PRAGMA foreign_keys\<close>), it is a property a database
  may or may not have.
\<close>

definition no_orphans :: "db \<Rightarrow> bool" where
  "no_orphans s \<longleftrightarrow>
     list_all (\<lambda>d. case d_user_id d of None \<Rightarrow> True | Some u \<Rightarrow> get_user s u \<noteq> None) (decks s) \<and>
     list_all (\<lambda>c. (case c_user_id c of None \<Rightarrow> True | Some u \<Rightarrow> get_user s u \<noteq> None) \<and>
                   (case c_deck_id c of None \<Rightarrow> True | Some k \<Rightarrow> get_deck s k \<noteq> None)) (cards s)"

section \<open>A database to run the functions on\<close>

text \<open>
  A stand-in for the bcrypt context, for running the functions: the "hash" is a tag, a
  salt of two characters and the password reversed.
\<close>

definition toy_ctx :: pwd_context where
  "toy_ctx = \<lparr>pwd_hash = (\<lambda>salt pw. ''$2b$'' @ salt @ rev pw),
              pwd_verify = (\<lambda>pw stored. stored = ''$2b$'' @ take 2 (drop 4 stored) @ rev pw)\<rparr>"

definition alice :: user where
  "alice = \<lparr>u_id = 1, u_name = Some ''Alice'', u_email = ''alice@example.com'',
            u_password = ''$2b$s1321drowssap''\<rparr>"

definition bob :: user where
  "bob = \<lparr>u_id = 2, u_name = Some ''Bob'', u_email = ''bob@example.com'',
          u_password = ''$2b$s2terces''\<rparr>"

definition deck1 :: deck where
  "deck1 = \<lparr>d_id = 1, d_name = ''General Vocabulary'', d_user_id = Some 1\<rparr>"

definition deck2 :: deck where
  "deck2 = \<lparr>d_id = 2, d_name = ''Verbs'', d_user_id = Some 2\<rparr>"

definition card1 :: card where
  "card1 = \<lparr>c_id = 1, c_user_id = Some 1, c_word = ''hello'', c_translation = ''world'',
            c_tip = Some ''Greeting'', c_deck_id = Some 1\<rparr>"

definition card2 :: card where
  "card2 = \<lparr>c_id = 2, c_user_id = Some 1, c_word = ''cat'', c_translation = ''kit'',
            c_tip = None, c_deck_id = Some 1\<rparr>"

definition card3 :: card where
  "card3 = \<lparr>c_id = 3, c_user_id = Some 2, c_word = ''go'', c_translation = ''ity'',
            c_tip = None, c_deck_id = Some 2\<rparr>"

definition card4 :: card where
  "card4 = \<lparr>c_id = 4, c_user_id = Some 1, c_word = ''sun'', c_translation = ''sontse'',
            c_tip = Some ''Star'', c_deck_id = Some 1\<rparr>"

definition db0 :: db where
  "db0 = \<lparr>users = [alice, bob], decks = [deck1, deck2],
          cards = [card1, card2, card3, card4]\<rparr>"

text \<open>
  The database after \<open>user_create\<close> and \<open>deck_create\<close> on the empty database, the first
  two steps of \<open>setup_database\<close>.
\<close>

definition seeded :: db where
  "seeded = step toy_ctx
     (step toy_ctx empty_db (User_create ''s1'' (Some ''Alice'') ''alice@example.com'' ''password123''))
     (Deck_create ''General Vocabulary'' (Some 1))"

lemmas db0_defs =
  db0_def alice_def bob_def deck1_def deck2_def card1_def card2_def card3_def card4_def

section \<open>Lookups in a table\<close>

lemma find_filter_other: "find (\<lambda>x. f x = i) (filter (\<lambda>x. f x \<noteq> i) xs) = None"
  by (induction xs) auto

lemma find_map_upd:
  "f y = i \<Longrightarrow> find (\<lambda>x. f x = k) (map (\<lambda>x. if f x = i then y else x) xs)
     = (if k = i then (case find (\<lambda>x. f x = i) xs of None \<Rightarrow> None | Some _ \<Rightarrow> Some y)
        else find (\<lambda>x. f x = k) xs)"
  by (induction xs) auto

lemma find_Some_key: "find (\<lambda>x. f x = i) xs = Some y \<Longrightarrow> f y = i"
  by (induction xs) (auto split: if_splits)

lemma fold_max_ge: "(a::int) \<le> fold max xs a"
proof (induction xs arbitrary: a)
  case Nil
  show ?case by simp
next
  case (Cons x xs)
  have "a \<le> max x a" by simp
  also have "\<dots> \<le> fold max xs (max x a)" by (rule Cons.IH)
  finally show ?case by simp
qed

lemma fold_max_upper: "x \<in> set xs \<Longrightarrow> (x::int) \<le> fold max xs a"
proof (induction xs arbitrary: a)
  case Nil
  then show ?case by simp
next
  case (Cons y ys)
  show ?case
  proof (cases "x = y")
    case True
    have "x \<le> max y a" using True by simp
    also have "\<dots> \<le> fold max ys (max y a)" by (rule fold_max_ge)
    finally show ?thesis by simp
  next
    case False
    with Cons.prems have "x \<in> set ys" by simp
    then show ?thesis using Cons.IH by simp
  qed
qed

lemma next_id_fresh: "x \<in> set ids \<Longrightarrow> x < next_id ids"
proof (cases ids)
  case Nil
  assume "x \<in> set ids"
  with Nil show ?thesis by simp
next
  case (Cons y ys)
  assume "x \<in> set ids"
  with Cons have "x = y \<or> x \<in> set ys" by auto
  then have "x \<le> fold max ys y"
    using fold_max_ge [of y ys] fold_max_upper [of x ys y] by auto
  with Cons show ?thesis by (simp add: next_id_def)
qed

lemma find_key_None_iff: "find (\<lambda>x. f x = i) xs = None \<longleftrightarrow> i \<notin> f ` set xs"
  by (induction xs) auto

section \<open>The delete accessors\<close>

text \<open>
  Claim C8.  Each of \<open>user_delete_by_id\<close>, \<open>deck_delete_by_id\<close> and \<open>card_delete_by_id\<close>
  returns \<open>True\<close> exactly when a row with the id existed, and afterwards no row with the
  id is left; when no row with the id exists it returns \<open>False\<close> and the database is the
  one it was given.  The three functions have no raising branch: they are total.
\<close>

theorem delete_by_id_reports_removal:
  "fst (user_delete_by_id s i) = (user_get_by_id s i \<noteq> None) \<and>
   fst (deck_delete_by_id s i) = (deck_get_by_id s i \<noteq> None) \<and>
   fst (card_delete_by_id s i) = (card_get_by_id s i \<noteq> None) \<and>
   user_get_by_id (snd (user_delete_by_id s i)) i = None \<and>
   deck_get_by_id (snd (deck_delete_by_id s i)) i = None \<and>
   card_get_by_id (snd (card_delete_by_id s i)) i = None \<and>
   (user_get_by_id s i = None \<longrightarrow> user_delete_by_id s i = (False, s)) \<and>
   (deck_get_by_id s i = None \<longrightarrow> deck_delete_by_id s i = (False, s)) \<and>
   (card_get_by_id s i = None \<longrightarrow> card_delete_by_id s i = (False, s))"
  by (auto simp: user_delete_by_id_def deck_delete_by_id_def card_delete_by_id_def
      user_get_by_id_def deck_get_by_id_def card_get_by_id_def get_user_def get_deck_def
      get_card_def delete_user_row_def delete_deck_row_def find_filter_other
      split: option.splits)

theorem delete_by_id_reports_removal_witness:
  "user_get_by_id db0 7 = None \<and> user_delete_by_id db0 7 = (False, db0) \<and>
   deck_get_by_id db0 7 = None \<and> deck_delete_by_id db0 7 = (False, db0) \<and>
   card_get_by_id db0 7 = None \<and> card_delete_by_id db0 7 = (False, db0) \<and>
   fst (card_delete_by_id db0 3) \<and> card_get_by_id db0 3 = Some card3 \<and>
   card_get_by_id (snd (card_delete_by_id db0 3)) 3 = None"
  using delete_by_id_reports_removal [of db0 7] delete_by_id_reports_removal [of db0 3]
  by (simp add: user_get_by_id_def deck_get_by_id_def card_get_by_id_def get_user_def
      get_deck_def get_card_def db0_defs)

section \<open>Partial update of a card\<close>

lemma card_update_found:
  assumes "get_card s i = Some c"
  shows "\<exists>c' s'. card_update s i word translation tip = (Some c', s') \<and>
           get_card s' i = Some c' \<and>
           c_word c' = (case word of Some w \<Rightarrow> w | None \<Rightarrow> c_word c) \<and>
           c_translation c' = (case translation of Some t \<Rightarrow> t | None \<Rightarrow> c_translation c) \<and>
           c_tip c' = (case tip of Some p \<Rightarrow> Some p | None \<Rightarrow> c_tip c) \<and>
           c_id c' = c_id c \<and> c_user_id c' = c_user_id c \<and> c_deck_id c' = c_deck_id c \<and>
           users s' = users s \<and> decks s' = decks s \<and>
           map c_id (cards s') = map c_id (cards s) \<and>
           (\<forall>j. j \<noteq> i \<longrightarrow> get_card s' j = get_card s j)"
proof -
  from assms have c: "find (\<lambda>x. c_id x = i) (cards s) = Some c"
    by (simp add: get_card_def)
  then have ci: "c_id c = i" by (rule find_Some_key)
  define c' where "c' = set_fields c word translation tip"
  have ci': "c_id c' = i"
    using ci by (simp add: c'_def set_fields_def split: option.splits)
  have ids: "\<And>xs. map c_id (map (\<lambda>x. if c_id x = i then c' else x) xs) = map c_id xs"
    using ci' by (induct_tac xs) auto
  show ?thesis
    using c ci
    by (auto simp: card_update_def get_card_def c'_def [symmetric] ids
        find_map_upd [where f = c_id, OF ci'])
      (auto simp: c'_def set_fields_def split: option.splits)
qed

text \<open>
  Claim C3.  For an existing card, \<open>card_update\<close> returns the stored card after the
  update: each of word, translation and tip that was supplied has the new value, each
  that was omitted (\<open>None\<close>) has the value it had; id, user_id and deck_id are the old
  ones.  No other row of any table changes.
\<close>

theorem card_update_partial:
  assumes "card_get_by_id s i = Some c"
  shows "\<exists>c' s'. card_update s i word translation tip = (Some c', s') \<and>
           card_get_by_id s' i = Some c' \<and>
           c_word c' = (case word of Some w \<Rightarrow> w | None \<Rightarrow> c_word c) \<and>
           c_translation c' = (case translation of Some t \<Rightarrow> t | None \<Rightarrow> c_translation c) \<and>
           c_tip c' = (case tip of Some p \<Rightarrow> Some p | None \<Rightarrow> c_tip c) \<and>
           c_id c' = c_id c \<and> c_user_id c' = c_user_id c \<and> c_deck_id c' = c_deck_id c \<and>
           users s' = users s \<and> decks s' = decks s \<and>
           map c_id (cards s') = map c_id (cards s) \<and>
           (\<forall>j. j \<noteq> i \<longrightarrow> card_get_by_id s' j = card_get_by_id s j)"
  using card_update_found [of s i c word translation tip] assms
  unfolding card_get_by_id_def by simp

theorem card_update_partial_witness:
  "card_get_by_id db0 1 = Some card1 \<and>
   (\<exists>c' s'. card_update db0 1 (Some ''hi'') None None = (Some c', s') \<and>
      card_get_by_id s' 1 = Some c' \<and> c_word c' = ''hi'' \<and> c_translation c' = ''world'' \<and>
      c_tip c' = Some ''Greeting'' \<and> c_id c' = 1 \<and> c_user_id c' = Some 1 \<and>
      c_deck_id c' = Some 1)"
proof -
  have h: "card_get_by_id db0 1 = Some card1"
    by (simp add: card_get_by_id_def get_card_def db0_defs)
  from card_update_partial [OF h, of "Some ''hi''" None None] h
  show ?thesis by (auto simp: card1_def)
qed

section \<open>The handler \<open>update_card\<close>\<close>

text \<open>
  Claim C10.  For a card of the current user, \<open>update_card\<close> passes the three form
  fields to \<open>card_update\<close> as \<open>request.form.get\<close> returns them: a field that is present
  is written to the card, also when it is the empty string, and only a field that is
  absent from the form keeps its value.  So a submitted empty word or translation
  leaves the card with an empty word or translation.
\<close>

theorem update_card_empty_overwrites:
  assumes "card_get_by_id s i = Some c" and "c_user_id c = Some cur"
  shows "update_card s cur i form =
           (([(Card_updated, Success)], redirect_show_cards (c_deck_id c)),
            snd (card_update s i (form ''word'') (form ''translation'') (form ''tip''))) \<and>
         (\<exists>c'. card_get_by_id (snd (update_card s cur i form)) i = Some c' \<and>
            c_word c' = (case form ''word'' of Some w \<Rightarrow> w | None \<Rightarrow> c_word c) \<and>
            c_translation c' =
              (case form ''translation'' of Some t \<Rightarrow> t | None \<Rightarrow> c_translation c) \<and>
            c_tip c' = (case form ''tip'' of Some p \<Rightarrow> Some p | None \<Rightarrow> c_tip c) \<and>
            (form ''word'' = Some [] \<longrightarrow> c_word c' = []) \<and>
            (form ''translation'' = Some [] \<longrightarrow> c_translation c' = []) \<and>
            (form ''tip'' = Some [] \<longrightarrow> c_tip c' = Some []))"
proof -
  from assms have g: "get_card s i = Some c"
    by (simp add: card_get_by_id_def)
  have eq: "update_card s cur i form =
           (([(Card_updated, Success)], redirect_show_cards (c_deck_id c)),
            snd (card_update s i (form ''word'') (form ''translation'') (form ''tip'')))"
    using g assms(2) by (simp add: update_card_def)
  from card_update_found [OF g, of "form ''word''" "form ''translation''" "form ''tip''"]
  obtain c' s' where
    r: "card_update s i (form ''word'') (form ''translation'') (form ''tip'') = (Some c', s')"
    and p: "get_card s' i = Some c'"
      "c_word c' = (case form ''word'' of Some w \<Rightarrow> w | None \<Rightarrow> c_word c)"
      "c_translation c' = (case form ''translation'' of Some t \<Rightarrow> t | None \<Rightarrow> c_translation c)"
      "c_tip c' = (case form ''tip'' of Some p \<Rightarrow> Some p | None \<Rightarrow> c_tip c)"
    by blast
  from eq r have "snd (update_card s cur i form) = s'" by simp
  with p eq show ?thesis by (auto simp: card_get_by_id_def)
qed

theorem update_card_empty_overwrites_witness:
  "card_get_by_id db0 1 = Some card1 \<and> c_user_id card1 = Some 1 \<and>
   (\<exists>c'. card_get_by_id (snd (update_card db0 1 1 [''word'' \<mapsto> '''']))  1 = Some c' \<and>
      c_word c' = '''' \<and> c_translation c' = ''world'' \<and> c_tip c' = Some ''Greeting'')"
proof -
  have h: "card_get_by_id db0 1 = Some card1"
    by (simp add: card_get_by_id_def get_card_def db0_defs)
  have u: "c_user_id card1 = Some 1" by (simp add: card1_def)
  from update_card_empty_overwrites [OF h u, of "[''word'' \<mapsto> '''']"] h u
  show ?thesis by (auto simp: card1_def)
qed

section \<open>Creating a user\<close>

text \<open>
  Claim C4.  When a user with the email exists, \<open>user_create\<close> returns \<open>None\<close> and the
  database is unchanged.  Otherwise it appends one user, with a fresh id, the given name
  and email, and as password the hash that \<open>pwd_context.hash\<close> gave for the password;
  the stored password is not the plaintext whenever that hash is not.
\<close>

theorem user_create_result:
  "(user_get_by_email s email \<noteq> None \<longrightarrow>
      user_create ctx salt s name email password = (None, s)) \<and>
   (user_get_by_email s email = None \<longrightarrow>
      (\<exists>u. user_create ctx salt s name email password = (Some u, s\<lparr>users := users s @ [u]\<rparr>) \<and>
           u_password u = pwd_hash ctx salt password \<and>
           u_name u = name \<and> u_email u = email \<and> user_get_by_id s (u_id u) = None \<and>
           (pwd_hash ctx salt password \<noteq> password \<longrightarrow> u_password u \<noteq> password)))"
proof -
  have fresh: "find (\<lambda>x. u_id x = next_id (map u_id (users s))) (users s) = None"
    using next_id_fresh [of "next_id (map u_id (users s))" "map u_id (users s)"]
    by (auto simp: find_key_None_iff)
  show ?thesis
    using fresh
    by (auto simp: user_create_def user_get_by_email_def user_get_by_id_def get_user_def
        Let_def split: option.splits)
qed

theorem user_create_result_witness:
  "user_get_by_email db0 ''bob@example.com'' \<noteq> None \<and>
   user_create toy_ctx ''s3'' db0 (Some ''Eve'') ''bob@example.com'' ''pw'' = (None, db0) \<and>
   user_get_by_email db0 ''carol@example.com'' = None \<and>
   pwd_hash toy_ctx ''s3'' ''pw'' \<noteq> ''pw'' \<and>
   (\<exists>u. user_create toy_ctx ''s3'' db0 (Some ''Carol'') ''carol@example.com'' ''pw'' =
           (Some u, db0\<lparr>users := users db0 @ [u]\<rparr>) \<and>
        u_password u = ''$2b$s3wp'' \<and> u_password u \<noteq> ''pw'')"
proof -
  have a: "user_get_by_email db0 ''bob@example.com'' \<noteq> None"
    by (simp add: user_get_by_email_def db0_defs)
  have b: "user_get_by_email db0 ''carol@example.com'' = None"
    by (simp add: user_get_by_email_def db0_defs)
  have c: "pwd_hash toy_ctx ''s3'' ''pw'' = ''$2b$s3wp''"
    by (simp add: toy_ctx_def)
  from user_create_result [of db0 "''bob@example.com''" toy_ctx "''s3''" "Some ''Eve''" "''pw''"]
    user_create_result [of db0 "''carol@example.com''" toy_ctx "''s3''" "Some ''Carol''" "''pw''"]
    a b c
  show ?thesis by auto
qed

section \<open>The handler \<open>add_card_to_deck\<close>\<close>

text \<open>
  The owner of deck 1 posts a form with a translation and no field \<open>word\<close>:
  \<open>request.form["word"]\<close> raises, the answer is 400 Bad Request with no flashed message
  and no redirect.
\<close>

theorem add_card_missing_field_counterexample:
  "deck_get_by_id db0 1 = Some deck1 \<and> d_user_id deck1 = Some 1 \<and>
   [''translation'' \<mapsto> ''svit''] ''word'' = None \<and>
   add_card_to_deck db0 1 1 [''translation'' \<mapsto> ''svit''] = (([], Bad_request), db0)"
  by (simp add: add_card_to_deck_def deck_get_by_id_def get_deck_def db0_defs)

text \<open>
  Claim C5, amended.  For the owner of the deck: when the field \<open>word\<close> or the field
  \<open>translation\<close> is absent from the form the answer is 400 Bad Request, with no message
  and no redirect; when both are present and one is empty the answer is the message
  "word and translation are required" and a redirect to the deck's cards.  In both
  cases the database, so the card table, is unchanged.
\<close>

theorem add_card_validation:
  assumes "deck_get_by_id s i = Some d" and "d_user_id d = Some cur"
  shows "(form ''word'' = None \<or> form ''translation'' = None \<longrightarrow>
            add_card_to_deck s cur i form = (([], Bad_request), s)) \<and>
         (\<forall>w t. form ''word'' = Some w \<and> form ''translation'' = Some t \<and> (w = [] \<or> t = []) \<longrightarrow>
            add_card_to_deck s cur i form =
              (([(Word_and_translation_required, Danger)], Redirect (Show_cards_in_deck i)), s))"
  using assms
  by (auto simp: add_card_to_deck_def deck_get_by_id_def split: option.splits)

theorem add_card_validation_witness:
  "deck_get_by_id db0 1 = Some deck1 \<and> d_user_id deck1 = Some 1 \<and>
   add_card_to_deck db0 1 1 [''word'' \<mapsto> ''sun''] = (([], Bad_request), db0) \<and>
   add_card_to_deck db0 1 1 [''word'' \<mapsto> ''sun'', ''translation'' \<mapsto> ''''] =
     (([(Word_and_translation_required, Danger)], Redirect (Show_cards_in_deck 1)), db0)"
proof -
  have h: "deck_get_by_id db0 1 = Some deck1"
    by (simp add: deck_get_by_id_def get_deck_def db0_defs)
  have u: "d_user_id deck1 = Some 1" by (simp add: deck1_def)
  from add_card_validation [OF h u, of "[''word'' \<mapsto> ''sun'']"]
    add_card_validation [OF h u, of "[''word'' \<mapsto> ''sun'', ''translation'' \<mapsto> '''']"] h u
  show ?thesis by simp
qed

section \<open>The ownership check\<close>

text \<open>
  Claim C1.  The deck handlers and the card handlers are taken separately, each under
  its own hypotheses only.

  Let deck \<open>i\<close> exist and belong to someone other than the current user, and let no deck
  have id \<open>j\<close>.  Then \<open>show_cards_in_deck\<close>, \<open>add_card_to_deck\<close>, \<open>delete_deck\<close> and
  \<open>review_deck\<close> each answer the same on \<open>i\<close> as on \<open>j\<close> and leave the database unchanged;
  the answer is the "deck not found or no access" message and a redirect to the index
  (for \<open>add_card_to_deck\<close> when the form has both required fields, and 400 Bad Request
  for both ids when it has not).  No card need exist for this.

  Let card \<open>k\<close> exist and belong to someone other than the current user, and let no card
  have id \<open>l\<close>.  Then \<open>edit_card\<close>, \<open>update_card\<close> and \<open>delete_card\<close> each answer the same
  on \<open>k\<close> as on \<open>l\<close>: the "card not found or no access" message, a redirect to the index,
  and the database unchanged.  No foreign deck need exist for this.
\<close>

theorem foreign_id_same_as_missing:
  "(deck_get_by_id s i = Some d \<and> d_user_id d \<noteq> Some cur \<and> deck_get_by_id s j = None \<longrightarrow>
      show_cards_in_deck s cur i = show_cards_in_deck s cur j \<and>
      add_card_to_deck s cur i form = add_card_to_deck s cur j form \<and>
      delete_deck s cur i = delete_deck s cur j \<and>
      review_deck rnd s cur i = review_deck rnd s cur j \<and>
      show_cards_in_deck s cur i =
        (([(Deck_not_found_or_no_access, Danger)], Redirect Index), s) \<and>
      add_card_to_deck s cur i form =
        (if form ''word'' = None \<or> form ''translation'' = None then (([], Bad_request), s)
         else (([(Deck_not_found_or_no_access, Danger)], Redirect Index), s)) \<and>
      delete_deck s cur i = (([(Deck_not_found_or_no_access, Danger)], Redirect Index), s) \<and>
      review_deck rnd s cur i =
        (([(Deck_not_found_or_no_access, Danger)], Redirect Index), s) \<and>
      snd (add_card_to_deck s cur i form) = s) \<and>
   (card_get_by_id s k = Some c \<and> c_user_id c \<noteq> Some cur \<and> card_get_by_id s l = None \<longrightarrow>
      edit_card s cur k = edit_card s cur l \<and>
      update_card s cur k form = update_card s cur l form \<and>
      delete_card s cur k = delete_card s cur l \<and>
      edit_card s cur k = (([(Card_not_found_or_no_access, Danger)], Redirect Index), s) \<and>
      update_card s cur k form =
        (([(Card_not_found_or_no_access, Danger)], Redirect Index), s) \<and>
      delete_card s cur k = (([(Card_not_found_or_no_access, Danger)], Redirect Index), s))"
proof (intro conjI impI)
  assume "deck_get_by_id s i = Some d \<and> d_user_id d \<noteq> Some cur \<and> deck_get_by_id s j = None"
  then have g: "get_deck s i = Some d" "d_user_id d \<noteq> Some cur" "get_deck s j = None"
    by (simp_all add: deck_get_by_id_def)
  show "show_cards_in_deck s cur i = show_cards_in_deck s cur j"
    using g by (simp add: show_cards_in_deck_def)
  show "add_card_to_deck s cur i form = add_card_to_deck s cur j form"
    using g by (simp add: add_card_to_deck_def split: option.splits)
  show "delete_deck s cur i = delete_deck s cur j"
    using g by (simp add: delete_deck_def)
  show "review_deck rnd s cur i = review_deck rnd s cur j"
    using g by (simp add: review_deck_def)
  show "show_cards_in_deck s cur i =
      (([(Deck_not_found_or_no_access, Danger)], Redirect Index), s)"
    using g by (simp add: show_cards_in_deck_def)
  show "add_card_to_deck s cur i form =
      (if form ''word'' = None \<or> form ''translation'' = None then (([], Bad_request), s)
       else (([(Deck_not_found_or_no_access, Danger)], Redirect Index), s))"
    using g by (auto simp: add_card_to_deck_def split: option.splits)
  show "delete_deck s cur i = (([(Deck_not_found_or_no_access, Danger)], Redirect Index), s)"
    using g by (simp add: delete_deck_def)
  show "review_deck rnd s cur i =
      (([(Deck_not_found_or_no_access, Danger)], Redirect Index), s)"
    using g by (simp add: review_deck_def)
  show "snd (add_card_to_deck s cur i form) = s"
    using g by (auto simp: add_card_to_deck_def split: option.splits)
next
  assume "card_get_by_id s k = Some c \<and> c_user_id c \<noteq> Some cur \<and> card_get_by_id s l = None"
  then have g: "get_card s k = Some c" "c_user_id c \<noteq> Some cur" "get_card s l = None"
    by (simp_all add: card_get_by_id_def)
  show "edit_card s cur k = edit_card s cur l"
    using g by (simp add: edit_card_def)
  show "update_card s cur k form = update_card s cur l form"
    using g by (simp add: update_card_def)
  show "delete_card s cur k = delete_card s cur l"
    using g by (simp add: delete_card_def)
  show "edit_card s cur k = (([(Card_not_found_or_no_access, Danger)], Redirect Index), s)"
    using g by (simp add: edit_card_def)
  show "update_card s cur k form =
      (([(Card_not_found_or_no_access, Danger)], Redirect Index), s)"
    using g by (simp add: update_card_def)
  show "delete_card s cur k = (([(Card_not_found_or_no_access, Danger)], Redirect Index), s)"
    using g by (simp add: delete_card_def)
qed

theorem foreign_id_same_as_missing_witness:
  "deck_get_by_id db0 2 = Some deck2 \<and> d_user_id deck2 \<noteq> Some 1 \<and>
   deck_get_by_id db0 9 = None \<and>
   card_get_by_id db0 3 = Some card3 \<and> c_user_id card3 \<noteq> Some 1 \<and>
   card_get_by_id db0 9 = None \<and>
   show_cards_in_deck db0 1 2 = show_cards_in_deck db0 1 9 \<and>
   add_card_to_deck db0 1 2 [''word'' \<mapsto> ''a'', ''translation'' \<mapsto> ''b''] =
     add_card_to_deck db0 1 9 [''word'' \<mapsto> ''a'', ''translation'' \<mapsto> ''b''] \<and>
   add_card_to_deck db0 1 2 [''word'' \<mapsto> ''a'', ''translation'' \<mapsto> ''b''] =
     (([(Deck_not_found_or_no_access, Danger)], Redirect Index), db0) \<and>
   edit_card db0 1 3 = edit_card db0 1 9 \<and>
   update_card db0 1 3 [''word'' \<mapsto> ''a'', ''translation'' \<mapsto> ''b''] =
     update_card db0 1 9 [''word'' \<mapsto> ''a'', ''translation'' \<mapsto> ''b''] \<and>
   delete_card db0 1 3 = delete_card db0 1 9 \<and>
   delete_deck db0 1 2 = delete_deck db0 1 9 \<and>
   review_deck (\<lambda>i. 0) db0 1 2 = review_deck (\<lambda>i. 0) db0 1 9 \<and>
   delete_deck db0 1 2 = (([(Deck_not_found_or_no_access, Danger)], Redirect Index), db0) \<and>
   delete_card db0 1 3 = (([(Card_not_found_or_no_access, Danger)], Redirect Index), db0) \<and>
   cards seeded = [] \<and>
   deck_get_by_id seeded 1 =
     Some \<lparr>d_id = 1, d_name = ''General Vocabulary'', d_user_id = Some 1\<rparr> \<and>
   deck_get_by_id seeded 9 = None \<and>
   show_cards_in_deck seeded 2 1 = show_cards_in_deck seeded 2 9 \<and>
   show_cards_in_deck seeded 2 1 =
     (([(Deck_not_found_or_no_access, Danger)], Redirect Index), seeded)"
proof -
  have a: "deck_get_by_id db0 2 = Some deck2" "deck_get_by_id db0 9 = None"
    by (simp_all add: deck_get_by_id_def get_deck_def db0_defs)
  have b: "card_get_by_id db0 3 = Some card3" "card_get_by_id db0 9 = None"
    by (simp_all add: card_get_by_id_def get_card_def db0_defs)
  have c: "d_user_id deck2 \<noteq> Some 1" "c_user_id card3 \<noteq> Some 1"
    by (simp_all add: deck2_def card3_def)
  have s: "seeded = \<lparr>users = [\<lparr>u_id = 1, u_name = Some ''Alice'', u_email = ''alice@example.com'',
                u_password = ''$2b$s1321drowssap''\<rparr>],
             decks = [\<lparr>d_id = 1, d_name = ''General Vocabulary'', d_user_id = Some 1\<rparr>],
             cards = []\<rparr>"
    by (simp add: seeded_def empty_db_def user_create_def deck_create_def next_id_def toy_ctx_def
        Let_def)
  have e: "cards seeded = []"
    "deck_get_by_id seeded 1 =
       Some \<lparr>d_id = 1, d_name = ''General Vocabulary'', d_user_id = Some 1\<rparr>"
    "deck_get_by_id seeded 9 = None"
    by (simp_all add: s deck_get_by_id_def get_deck_def)
  have f: "d_user_id \<lparr>d_id = 1, d_name = ''General Vocabulary'', d_user_id = Some 1\<rparr> \<noteq> Some 2"
    by simp
  have d1: "deck_get_by_id db0 2 = Some deck2 \<and> d_user_id deck2 \<noteq> Some 1 \<and>
      deck_get_by_id db0 9 = None"
    using a c by simp
  have k1: "card_get_by_id db0 3 = Some card3 \<and> c_user_id card3 \<noteq> Some 1 \<and>
      card_get_by_id db0 9 = None"
    using b c by simp
  have d2: "deck_get_by_id seeded 1 =
        Some \<lparr>d_id = 1, d_name = ''General Vocabulary'', d_user_id = Some 1\<rparr> \<and>
      d_user_id \<lparr>d_id = 1, d_name = ''General Vocabulary'', d_user_id = Some 1\<rparr> \<noteq> Some 2 \<and>
      deck_get_by_id seeded 9 = None"
    using e f by simp
  note T1 = foreign_id_same_as_missing [of db0 2 deck2 1 9
      "[''word'' \<mapsto> ''a'', ''translation'' \<mapsto> ''b'']" "\<lambda>i. 0" 3 card3 9]
  note T2 = foreign_id_same_as_missing [of seeded 1
      "\<lparr>d_id = 1, d_name = ''General Vocabulary'', d_user_id = Some 1\<rparr>" 2 9
      "[''word'' \<mapsto> ''a'', ''translation'' \<mapsto> ''b'']" "\<lambda>i. 0" 3 card3 9]
  note D1 = T1 [THEN conjunct1, THEN mp, OF d1]
  note K1 = T1 [THEN conjunct2, THEN mp, OF k1]
  note D2 = T2 [THEN conjunct1, THEN mp, OF d2]
  from D1 have "add_card_to_deck db0 1 2 [''word'' \<mapsto> ''a'', ''translation'' \<mapsto> ''b''] =
      (if [''word'' \<mapsto> ''a'', ''translation'' \<mapsto> ''b''] ''word'' = None \<or>
          [''word'' \<mapsto> ''a'', ''translation'' \<mapsto> ''b''] ''translation'' = None
       then (([], Bad_request), db0)
       else (([(Deck_not_found_or_no_access, Danger)], Redirect Index), db0))"
    by blast
  then have A1: "add_card_to_deck db0 1 2 [''word'' \<mapsto> ''a'', ''translation'' \<mapsto> ''b''] =
      (([(Deck_not_found_or_no_access, Danger)], Redirect Index), db0)"
    by simp
  from D1 K1 D2 A1 a b c e show ?thesis by blast
qed

section \<open>The review session\<close>

lemma shuffle_loop_mset: "i < length x \<Longrightarrow> mset (shuffle_loop rnd i x) = mset x"
proof (induction i arbitrary: x)
  case 0
  show ?case by simp
next
  case (Suc i)
  define j where "j = randbelow (rnd (Suc i)) (Suc i + 1)"
  have "j < Suc i + 1" by (simp add: j_def randbelow_def)
  with Suc.prems have j: "j < length x" by simp
  let ?y = "x[Suc i := x ! j, j := x ! Suc i]"
  have sw: "mset ?y = mset x"
    using Suc.prems j by (simp add: mset_swap)
  have "i < length ?y" using Suc.prems by simp
  then have "mset (shuffle_loop rnd i ?y) = mset ?y" by (rule Suc.IH)
  with sw show ?case by (simp add: j_def Let_def)
qed

lemma shuffle_mset: "mset (shuffle rnd x) = mset x"
proof (cases x)
  case Nil
  then show ?thesis by (simp add: shuffle_def)
next
  case (Cons a as)
  then have "length x - 1 < length x" by simp
  then show ?thesis unfolding shuffle_def by (rule shuffle_loop_mset)
qed

lemma review_deck_owner:
  assumes "get_deck s i = Some d" and "d_user_id d = Some cur"
  shows "review_deck rnd s cur i =
     (([], Render_review d (shuffle rnd (map to_dict (deck_cards s i)))), s)"
proof -
  from assms(1) have "d_id d = i" unfolding get_deck_def by (rule find_Some_key)
  with assms show ?thesis by (simp add: review_deck_def)
qed

text \<open>
  Claim C7.  For a deck \<open>i\<close> of the current user, \<open>review_deck\<close> renders the review page
  with a list that is a permutation of the records
  \<open>(id, word, translation, tip)\<close> of the cards whose \<open>deck_id\<close> is \<open>i\<close>: for each such
  card the record with exactly that card's id, word, translation and tip, each record as
  often as among the deck's cards, so all N of them; and the database it returns is the
  one it was given.  This holds for every behaviour of the random generator.
\<close>

theorem review_deck_permutation:
  assumes "deck_get_by_id s i = Some d" and "d_user_id d = Some cur"
  shows "\<exists>shown. review_deck rnd s cur i = (([], Render_review d shown), s) \<and>
           mset shown =
             mset (map (\<lambda>c. \<lparr>cd_id = c_id c, cd_word = c_word c,
                             cd_translation = c_translation c, cd_tip = c_tip c\<rparr>)
                       (filter (\<lambda>c. c_deck_id c = Some i) (cards s))) \<and>
           length shown = length (filter (\<lambda>c. c_deck_id c = Some i) (cards s))"
proof -
  from assms(1) have g: "get_deck s i = Some d" by (simp add: deck_get_by_id_def)
  let ?recs = "map (\<lambda>c. \<lparr>cd_id = c_id c, cd_word = c_word c,
                             cd_translation = c_translation c, cd_tip = c_tip c\<rparr>)
                       (filter (\<lambda>c. c_deck_id c = Some i) (cards s))"
  have e: "map to_dict (deck_cards s i) = ?recs"
    by (simp add: deck_cards_def to_dict_def)
  have r: "review_deck rnd s cur i = (([], Render_review d (shuffle rnd ?recs)), s)"
    using review_deck_owner [OF g assms(2), of rnd] by (simp only: e)
  have m: "mset (shuffle rnd ?recs) = mset ?recs" by (rule shuffle_mset)
  from m have "length (shuffle rnd ?recs) = length ?recs" by (rule mset_eq_length)
  then have l: "length (shuffle rnd ?recs) = length (filter (\<lambda>c. c_deck_id c = Some i) (cards s))"
    by simp
  from r m l show ?thesis by blast
qed

theorem review_deck_permutation_witness:
  "deck_get_by_id db0 1 = Some deck1 \<and> d_user_id deck1 = Some 1 \<and>
   (\<exists>shown. review_deck (\<lambda>i. 0) db0 1 1 = (([], Render_review deck1 shown), db0) \<and>
      mset shown =
        {#\<lparr>cd_id = 1, cd_word = ''hello'', cd_translation = ''world'', cd_tip = Some ''Greeting''\<rparr>,
          \<lparr>cd_id = 2, cd_word = ''cat'', cd_translation = ''kit'', cd_tip = None\<rparr>,
          \<lparr>cd_id = 4, cd_word = ''sun'', cd_translation = ''sontse'', cd_tip = Some ''Star''\<rparr>#} \<and>
      length shown = 3)"
proof -
  have h: "deck_get_by_id db0 1 = Some deck1"
    by (simp add: deck_get_by_id_def get_deck_def db0_defs)
  have u: "d_user_id deck1 = Some 1" by (simp add: deck1_def)
  have c: "filter (\<lambda>c. c_deck_id c = Some 1) (cards db0) = [card1, card2, card4]"
    by (simp add: db0_defs)
  from review_deck_permutation [OF h u, of "\<lambda>i. 0"] obtain shown where
    "review_deck (\<lambda>i. 0) db0 1 1 = (([], Render_review deck1 shown), db0)"
    "mset shown = mset (map (\<lambda>c. \<lparr>cd_id = c_id c, cd_word = c_word c,
                             cd_translation = c_translation c, cd_tip = c_tip c\<rparr>)
                       (filter (\<lambda>c. c_deck_id c = Some 1) (cards db0)))"
    "length shown = length (filter (\<lambda>c. c_deck_id c = Some 1) (cards db0))"
    by blast
  then have "review_deck (\<lambda>i. 0) db0 1 1 = (([], Render_review deck1 shown), db0) \<and>
      mset shown =
        {#\<lparr>cd_id = 1, cd_word = ''hello'', cd_translation = ''world'', cd_tip = Some ''Greeting''\<rparr>,
          \<lparr>cd_id = 2, cd_word = ''cat'', cd_translation = ''kit'', cd_tip = None\<rparr>,
          \<lparr>cd_id = 4, cd_word = ''sun'', cd_translation = ''sontse'', cd_tip = Some ''Star''\<rparr>#} \<and>
      length shown = 3"
    by (simp add: c card1_def card2_def card4_def)
  with h u show ?thesis by blast
qed

section \<open>The primary keys stay unique\<close>

lemma find_Some_mem: "find P xs = Some y \<Longrightarrow> y \<in> set xs \<and> P y"
  by (induction xs) (auto split: if_splits)

lemma next_id_notin: "x \<in> set xs \<Longrightarrow> next_id (map f xs) \<noteq> f x"
  using next_id_fresh [of "f x" "map f xs"] by auto

lemma find_filter_pass:
  "(\<And>x. x \<in> set xs \<Longrightarrow> f x = k \<Longrightarrow> P x) \<Longrightarrow>
   find (\<lambda>x. f x = k) (filter P xs) = find (\<lambda>x. f x = k) xs"
  by (induction xs) auto

lemma find_filter_gone:
  assumes "distinct (map f xs)" and "c \<in> set xs" and "\<not> P c"
  shows "find (\<lambda>x. f x = f c) (filter P xs) = None"
proof -
  have "x = c" if "x \<in> set xs" and "f x = f c" for x
    using assms(1,2) that by (meson distinct_map inj_onD)
  with assms(3) show ?thesis by (auto simp: find_None_iff)
qed

lemma find_filter_distinct:
  assumes "distinct (map f xs)" and "find (\<lambda>x. f x = i) (filter P xs) = Some y"
  shows "find (\<lambda>x. f x = i) xs = Some y"
  using assms
proof (induction xs)
  case Nil
  then show ?case by simp
next
  case (Cons x xs)
  show ?case
  proof (cases "f x = i")
    case True
    show ?thesis
    proof (cases "P x")
      case True
      with \<open>f x = i\<close> Cons.prems show ?thesis by simp
    next
      case False
      with Cons.prems have "find (\<lambda>x. f x = i) (filter P xs) = Some y" by simp
      then have "y \<in> set xs" and "f y = i"
        by (auto dest: find_Some_mem)
      moreover have "f x \<notin> f ` set xs" using Cons.prems(1) by simp
      ultimately have False using True by force
      then show ?thesis ..
    qed
  next
    case False
    with Cons show ?thesis by (cases "P x") auto
  qed
qed

lemma find_append_Some:
  "find P xs = Some y \<Longrightarrow> find P (xs @ ys) = Some y"
  by (induction xs) (auto split: if_splits)

lemma map_key_upd: "f y = i \<Longrightarrow> map (f \<circ> (\<lambda>x. if f x = i then y else x)) xs = map f xs"
  by (induction xs) auto

text \<open>Every operation keeps the primary keys unique, so every reachable database has them unique.\<close>

lemma pk_user_create: "pk_unique s \<Longrightarrow> pk_unique (snd (user_create ctx salt s name email password))"
  by (auto simp: pk_unique_def user_create_def Let_def next_id_notin split: option.splits)

lemma pk_user_update_name: "pk_unique s \<Longrightarrow> pk_unique (snd (user_update_name s i name))"
proof (cases "get_user s i")
  case None
  assume "pk_unique s"
  with None show ?thesis by (simp add: user_update_name_def)
next
  case (Some u)
  assume pk: "pk_unique s"
  from Some have "u_id u = i" unfolding get_user_def by (rule find_Some_key)
  then have "u_id (u\<lparr>u_name := name\<rparr>) = i" by simp
  then have m: "\<And>xs. map (u_id \<circ> (\<lambda>x. if u_id x = i then u\<lparr>u_name := name\<rparr> else x)) xs = map u_id xs"
    by (rule map_key_upd)
  from pk Some show ?thesis by (simp add: user_update_name_def pk_unique_def Let_def m)
qed

lemma pk_user_change_password:
  "pk_unique s \<Longrightarrow> pk_unique (snd (user_change_password ctx salt s i old new))"
proof (cases "get_user s i")
  case None
  assume "pk_unique s"
  with None show ?thesis by (simp add: user_change_password_def)
next
  case (Some u)
  assume pk: "pk_unique s"
  from Some have "u_id u = i" unfolding get_user_def by (rule find_Some_key)
  then have "u_id (u\<lparr>u_password := pwd_hash ctx salt new\<rparr>) = i" by simp
  then have m: "\<And>xs. map (u_id \<circ> (\<lambda>x. if u_id x = i then u\<lparr>u_password := pwd_hash ctx salt new\<rparr> else x)) xs = map u_id xs"
    by (rule map_key_upd)
  from pk Some show ?thesis by (simp add: user_change_password_def pk_unique_def Let_def m)
qed

lemma pk_user_delete: "pk_unique s \<Longrightarrow> pk_unique (snd (user_delete_by_id s i))"
  by (auto simp: pk_unique_def user_delete_by_id_def delete_user_row_def Let_def
      distinct_map_filter split: option.splits)

lemma pk_deck_create: "pk_unique s \<Longrightarrow> pk_unique (snd (deck_create s name u))"
  by (auto simp: pk_unique_def deck_create_def Let_def next_id_notin)

lemma pk_deck_update: "pk_unique s \<Longrightarrow> pk_unique (snd (deck_update s i name))"
proof (cases "get_deck s i")
  case None
  assume "pk_unique s"
  with None show ?thesis by (simp add: deck_update_def)
next
  case (Some d)
  assume pk: "pk_unique s"
  from Some have "d_id d = i" unfolding get_deck_def by (rule find_Some_key)
  then have "d_id (d\<lparr>d_name := name\<rparr>) = i" by simp
  then have m: "\<And>xs. map (d_id \<circ> (\<lambda>x. if d_id x = i then d\<lparr>d_name := name\<rparr> else x)) xs = map d_id xs"
    by (rule map_key_upd)
  from pk Some show ?thesis by (simp add: deck_update_def pk_unique_def Let_def m)
qed

lemma pk_deck_delete: "pk_unique s \<Longrightarrow> pk_unique (snd (deck_delete_by_id s i))"
  by (auto simp: pk_unique_def deck_delete_by_id_def delete_deck_row_def
      distinct_map_filter split: option.splits)

lemma pk_card_create: "pk_unique s \<Longrightarrow> pk_unique (snd (card_create s u w t p k))"
  by (auto simp: pk_unique_def card_create_def Let_def next_id_notin)

lemma pk_card_update: "pk_unique s \<Longrightarrow> pk_unique (snd (card_update s i w t p))"
proof (cases "get_card s i")
  case None
  assume "pk_unique s"
  with None show ?thesis by (simp add: card_update_def)
next
  case (Some c)
  assume pk: "pk_unique s"
  from card_update_found [OF Some, of w t p] pk
  show ?thesis by (auto simp: pk_unique_def)
qed

lemma pk_card_delete: "pk_unique s \<Longrightarrow> pk_unique (snd (card_delete_by_id s i))"
  by (auto simp: pk_unique_def card_delete_by_id_def distinct_map_filter split: option.splits)

lemma register_state:
  "snd (register ctx salt s form) = s \<or>
   (\<exists>n e p. snd (register ctx salt s form) = snd (user_create ctx salt s n e p))"
proof (cases "form ''email''")
  case None
  then show ?thesis by (simp add: register_def)
next
  case e: (Some e)
  show ?thesis
  proof (cases "form ''password''")
    case None
    with e show ?thesis by (simp add: register_def)
  next
    case p: (Some p)
    obtain r s' where r: "user_create ctx salt s (form ''name'') e p = (r, s')"
      by (cases "user_create ctx salt s (form ''name'') e p")
    then have "snd (user_create ctx salt s (form ''name'') e p) = s'" by simp
    moreover have "snd (register ctx salt s form) = s \<or> snd (register ctx salt s form) = s'"
      using e p r by (cases r) (simp_all add: register_def)
    ultimately show ?thesis by metis
  qed
qed

lemma pk_step: "pk_unique s \<Longrightarrow> pk_unique (step ctx s a)"
proof (cases a)
  case (Register salt form)
  assume "pk_unique s"
  then show ?thesis
    using register_state [of ctx salt s form] pk_user_create [of s ctx salt]
    by (auto simp: Register)
next
  case (Add_card_to_deck cur i form)
  assume "pk_unique s"
  then show ?thesis
    by (auto simp: Add_card_to_deck add_card_to_deck_def Let_def pk_card_create
        split: option.splits)
qed (auto simp: pk_user_create pk_user_update_name pk_user_change_password pk_user_delete
    pk_deck_create pk_deck_update pk_deck_delete pk_card_create pk_card_update pk_card_delete
    show_cards_in_deck_def edit_card_def update_card_def delete_card_def add_deck_def
    delete_deck_def review_deck_def Let_def split: option.splits)

lemma reachable_pk_unique: "reachable ctx s \<Longrightarrow> pk_unique s"
proof (induction rule: reachable.induct)
  case reachable_empty
  show ?case by (simp add: pk_unique_def empty_db_def)
next
  case (reachable_step s a)
  then show ?case by (simp add: pk_step)
qed

section \<open>The owner of a deck\<close>

lemma decks_untouched:
  "decks (snd (user_create ctx salt s n e p)) = decks s"
  "decks (snd (user_update_name s i name)) = decks s"
  "decks (snd (user_change_password ctx salt s i old new)) = decks s"
  "decks (snd (card_create s u w t tip k)) = decks s"
  "decks (snd (card_update s i w' t' tip')) = decks s"
  "decks (snd (card_delete_by_id s i)) = decks s"
  by (simp_all add: user_create_def user_update_name_def user_change_password_def
      card_create_def card_update_def card_delete_by_id_def Let_def split: option.splits)

lemma decks_register: "decks (snd (register ctx salt s form)) = decks s"
  using register_state [of ctx salt s form] by (auto simp: decks_untouched)

lemma owner_same_decks:
  "decks s' = decks s \<Longrightarrow> get_deck s i = Some d \<Longrightarrow> get_deck s' i = Some d' \<Longrightarrow>
   d_user_id d' = d_user_id d \<and> d_id d' = d_id d"
  by (simp add: get_deck_def)

lemma owner_user_delete:
  assumes "pk_unique s" and "get_deck s i = Some d"
    and "get_deck (snd (user_delete_by_id s u)) i = Some d'"
  shows "d_user_id d' = d_user_id d \<and> d_id d' = d_id d"
proof (cases "get_user s u")
  case None
  with assms show ?thesis by (simp add: user_delete_by_id_def)
next
  case (Some usr)
  with assms(3) have "find (\<lambda>x. d_id x = i) (filter (\<lambda>d. d_user_id d \<noteq> Some u) (decks s)) = Some d'"
    by (simp add: user_delete_by_id_def delete_user_row_def get_deck_def Let_def)
  moreover from assms(1) have "distinct (map d_id (decks s))" by (simp add: pk_unique_def)
  ultimately have "find (\<lambda>x. d_id x = i) (decks s) = Some d'" by (rule find_filter_distinct [rotated])
  with assms(2) show ?thesis by (simp add: get_deck_def)
qed

lemma owner_deck_delete:
  assumes "pk_unique s" and "get_deck s i = Some d"
    and "get_deck (snd (deck_delete_by_id s j)) i = Some d'"
  shows "d_user_id d' = d_user_id d \<and> d_id d' = d_id d"
proof (cases "get_deck s j")
  case None
  with assms show ?thesis by (simp add: deck_delete_by_id_def)
next
  case (Some dj)
  with assms(3) have "find (\<lambda>x. d_id x = i) (filter (\<lambda>d. d_id d \<noteq> j) (decks s)) = Some d'"
    by (simp add: deck_delete_by_id_def delete_deck_row_def get_deck_def)
  moreover from assms(1) have "distinct (map d_id (decks s))" by (simp add: pk_unique_def)
  ultimately have "find (\<lambda>x. d_id x = i) (decks s) = Some d'" by (rule find_filter_distinct [rotated])
  with assms(2) show ?thesis by (simp add: get_deck_def)
qed

lemma owner_deck_create:
  assumes "get_deck s i = Some d" and "get_deck (snd (deck_create s name u)) i = Some d'"
  shows "d_user_id d' = d_user_id d \<and> d_id d' = d_id d"
proof -
  from assms(1) have "find (\<lambda>x. d_id x = i) (decks s) = Some d" by (simp add: get_deck_def)
  then have "find (\<lambda>x. d_id x = i) (decks s @ ys) = Some d" for ys by (rule find_append_Some)
  with assms(2) show ?thesis by (simp add: deck_create_def get_deck_def Let_def)
qed

lemma owner_deck_update:
  assumes "get_deck s i = Some d" and "get_deck (snd (deck_update s j name)) i = Some d'"
  shows "d_user_id d' = d_user_id d \<and> d_id d' = d_id d"
proof (cases "get_deck s j")
  case None
  with assms show ?thesis by (simp add: deck_update_def)
next
  case (Some dj)
  then have "d_id dj = j" unfolding get_deck_def by (rule find_Some_key)
  then have k: "d_id (dj\<lparr>d_name := name\<rparr>) = j" by simp
  have upd: "get_deck (snd (deck_update s j name)) i =
      (if i = j then Some (dj\<lparr>d_name := name\<rparr>) else get_deck s i)"
    using Some
    by (simp add: deck_update_def get_deck_def Let_def find_map_upd [where f = d_id, OF k])
  show ?thesis
  proof (cases "i = j")
    case True
    with assms(1) Some have "dj = d" by simp
    with assms(2) upd True show ?thesis by auto
  next
    case False
    with assms upd show ?thesis by simp
  qed
qed

lemma owner_step:
  assumes "pk_unique s" and "get_deck s i = Some d" and "get_deck (step ctx s a) i = Some d'"
  shows "d_user_id d' = d_user_id d \<and> d_id d' = d_id d"
proof (cases a)
  case (User_create salt n e p)
  with assms(3) have "get_deck (snd (user_create ctx salt s n e p)) i = Some d'" by simp
  with assms(2) show ?thesis by (rule owner_same_decks [OF decks_untouched(1)])
next
  case (User_update_name j n)
  with assms(3) have "get_deck (snd (user_update_name s j n)) i = Some d'" by simp
  with assms(2) show ?thesis by (rule owner_same_decks [OF decks_untouched(2)])
next
  case (User_change_password salt j old new)
  with assms(3) have "get_deck (snd (user_change_password ctx salt s j old new)) i = Some d'" by simp
  with assms(2) show ?thesis by (rule owner_same_decks [OF decks_untouched(3)])
next
  case (User_delete_by_id u)
  with assms(3) have "get_deck (snd (user_delete_by_id s u)) i = Some d'" by simp
  with assms(1,2) show ?thesis by (rule owner_user_delete)
next
  case (Deck_create n u)
  with assms(3) have "get_deck (snd (deck_create s n u)) i = Some d'" by simp
  with assms(2) show ?thesis by (rule owner_deck_create)
next
  case (Deck_update j n)
  with assms(3) have "get_deck (snd (deck_update s j n)) i = Some d'" by simp
  with assms(2) show ?thesis by (rule owner_deck_update)
next
  case (Deck_delete_by_id j)
  with assms(3) have "get_deck (snd (deck_delete_by_id s j)) i = Some d'" by simp
  with assms(1,2) show ?thesis by (rule owner_deck_delete)
next
  case (Card_create u w t tip k)
  with assms(3) have "get_deck (snd (card_create s u w t tip k)) i = Some d'" by simp
  with assms(2) show ?thesis by (rule owner_same_decks [OF decks_untouched(4)])
next
  case (Card_update j w t tip)
  with assms(3) have "get_deck (snd (card_update s j w t tip)) i = Some d'" by simp
  with assms(2) show ?thesis by (rule owner_same_decks [OF decks_untouched(5)])
next
  case (Card_delete_by_id j)
  with assms(3) have "get_deck (snd (card_delete_by_id s j)) i = Some d'" by simp
  with assms(2) show ?thesis by (rule owner_same_decks [OF decks_untouched(6)])
next
  case (Register salt form)
  with assms(3) have "get_deck (snd (register ctx salt s form)) i = Some d'" by simp
  with assms(2) show ?thesis by (rule owner_same_decks [OF decks_register])
next
  case (Show_cards cur j)
  with assms show ?thesis by (auto simp: show_cards_in_deck_def split: option.splits if_splits)
next
  case (Add_card_to_deck cur j form)
  have "decks (snd (add_card_to_deck s cur j form)) = decks s"
    by (simp add: add_card_to_deck_def decks_untouched Let_def split: option.splits)
  moreover note assms(2)
  moreover from assms(3) have "get_deck (snd (add_card_to_deck s cur j form)) i = Some d'"
    by (simp add: Add_card_to_deck)
  ultimately show ?thesis by (rule owner_same_decks)
next
  case (Edit_card cur j)
  with assms show ?thesis by (auto simp: edit_card_def split: option.splits if_splits)
next
  case (Update_card cur j form)
  have "decks (snd (update_card s cur j form)) = decks s"
    by (simp add: update_card_def decks_untouched Let_def split: option.splits)
  moreover note assms(2)
  moreover from assms(3) have "get_deck (snd (update_card s cur j form)) i = Some d'"
    by (simp add: Update_card)
  ultimately show ?thesis by (rule owner_same_decks)
next
  case (Delete_card cur j)
  have "decks (snd (delete_card s cur j)) = decks s"
    by (simp add: delete_card_def decks_untouched Let_def split: option.splits)
  moreover note assms(2)
  moreover from assms(3) have "get_deck (snd (delete_card s cur j)) i = Some d'"
    by (simp add: Delete_card)
  ultimately show ?thesis by (rule owner_same_decks)
next
  case (Add_deck cur form)
  have "snd (add_deck s cur form) = s \<or>
        (\<exists>n. snd (add_deck s cur form) = snd (deck_create s n (Some cur)))"
    by (auto simp: add_deck_def split: option.splits)
  then show ?thesis
  proof
    assume "snd (add_deck s cur form) = s"
    with assms Add_deck show ?thesis by simp
  next
    assume "\<exists>n. snd (add_deck s cur form) = snd (deck_create s n (Some cur))"
    then obtain n where "snd (add_deck s cur form) = snd (deck_create s n (Some cur))" ..
    with assms(3) Add_deck have "get_deck (snd (deck_create s n (Some cur))) i = Some d'"
      by simp
    with assms(2) show ?thesis by (rule owner_deck_create)
  qed
next
  case (Delete_deck cur j)
  have "snd (delete_deck s cur j) = s \<or> snd (delete_deck s cur j) = snd (deck_delete_by_id s j)"
    by (auto simp: delete_deck_def split: option.splits)
  then show ?thesis
  proof
    assume "snd (delete_deck s cur j) = s"
    with assms Delete_deck show ?thesis by simp
  next
    assume "snd (delete_deck s cur j) = snd (deck_delete_by_id s j)"
    with assms(3) Delete_deck have "get_deck (snd (deck_delete_by_id s j)) i = Some d'"
      by simp
    with assms(1,2) show ?thesis by (rule owner_deck_delete)
  qed
next
  case (Review_deck rnd cur j)
  with assms show ?thesis by (auto simp: review_deck_def Let_def split: option.splits if_splits)
qed

text \<open>
  Claim C9.  In every reachable database and for every operation (the accessors and
  the request handlers, \<open>deck_update\<close> and the card operations among them): a deck that
  exists before the operation and still exists after it has the same \<open>user_id\<close> (and
  the same id).  No transition changes the owner of a deck.
\<close>

theorem deck_owner_never_changes:
  assumes "reachable ctx s" and "deck_get_by_id s i = Some d"
    and "deck_get_by_id (step ctx s a) i = Some d'"
  shows "d_user_id d' = d_user_id d \<and> d_id d' = d_id d"
  using owner_step [of s i d ctx a d'] reachable_pk_unique [OF assms(1)] assms(2,3)
  by (simp add: deck_get_by_id_def)


theorem deck_owner_never_changes_witness:
  "reachable toy_ctx seeded \<and>
   deck_get_by_id seeded 1 = Some \<lparr>d_id = 1, d_name = ''General Vocabulary'', d_user_id = Some 1\<rparr> \<and>
   deck_get_by_id (step toy_ctx seeded (Deck_update 1 ''Verbs'')) 1 =
     Some \<lparr>d_id = 1, d_name = ''Verbs'', d_user_id = Some 1\<rparr> \<and>
   d_user_id \<lparr>d_id = 1, d_name = ''Verbs'', d_user_id = Some 1\<rparr> =
     d_user_id \<lparr>d_id = 1, d_name = ''General Vocabulary'', d_user_id = Some 1\<rparr>"
proof -
  have r: "reachable toy_ctx seeded"
    unfolding seeded_def by (intro reachable_step reachable_empty)
  have s: "seeded = \<lparr>users = [\<lparr>u_id = 1, u_name = Some ''Alice'', u_email = ''alice@example.com'',
                u_password = ''$2b$s1321drowssap''\<rparr>],
             decks = [\<lparr>d_id = 1, d_name = ''General Vocabulary'', d_user_id = Some 1\<rparr>],
             cards = []\<rparr>"
    by (simp add: seeded_def empty_db_def user_create_def deck_create_def next_id_def toy_ctx_def
        Let_def)
  have a: "deck_get_by_id seeded 1 =
      Some \<lparr>d_id = 1, d_name = ''General Vocabulary'', d_user_id = Some 1\<rparr>"
    by (simp add: s deck_get_by_id_def get_deck_def)
  have b: "deck_get_by_id (step toy_ctx seeded (Deck_update 1 ''Verbs'')) 1 =
      Some \<lparr>d_id = 1, d_name = ''Verbs'', d_user_id = Some 1\<rparr>"
    by (simp add: s deck_get_by_id_def get_deck_def deck_update_def Let_def)
  from deck_owner_never_changes [OF r a b] r a b show ?thesis by simp
qed

section \<open>Cascading delete\<close>

lemma deck_delete_cascade:
  assumes pk: "pk_unique s" and g: "get_deck s i = Some d"
  shows "deck_delete_by_id s i = (True, delete_deck_row s i)"
    and "get_deck (delete_deck_row s i) i = None"
    and "c \<in> set (cards s) \<Longrightarrow> c_deck_id c = Some i \<Longrightarrow>
           get_card (delete_deck_row s i) (c_id c) = None"
    and "c' \<in> set (cards (delete_deck_row s i)) \<Longrightarrow> c_deck_id c' \<noteq> Some i"
proof -
  show "deck_delete_by_id s i = (True, delete_deck_row s i)"
    using g by (simp add: deck_delete_by_id_def)
  show "get_deck (delete_deck_row s i) i = None"
    by (simp add: get_deck_def delete_deck_row_def find_filter_other)
  show "c' \<in> set (cards (delete_deck_row s i)) \<Longrightarrow> c_deck_id c' \<noteq> Some i"
    by (simp add: delete_deck_row_def)
  assume c: "c \<in> set (cards s)" "c_deck_id c = Some i"
  from pk have "distinct (map c_id (cards s))" by (simp add: pk_unique_def)
  from find_filter_gone [OF this c(1), of "\<lambda>c. c_deck_id c \<noteq> Some i"] c(2)
  show "get_card (delete_deck_row s i) (c_id c) = None"
    by (simp add: get_card_def delete_deck_row_def)
qed

lemma user_delete_cascade:
  assumes pk: "pk_unique s" and g: "get_user s u = Some usr"
  shows "user_delete_by_id s u = (True, delete_user_row s u)"
    and "get_user (delete_user_row s u) u = None"
    and "d \<in> set (decks s) \<Longrightarrow> d_user_id d = Some u \<Longrightarrow>
           get_deck (delete_user_row s u) (d_id d) = None"
    and "c \<in> set (cards s) \<Longrightarrow> c_user_id c = Some u \<Longrightarrow>
           get_card (delete_user_row s u) (c_id c) = None"
    and "d \<in> set (decks s) \<Longrightarrow> d_user_id d = Some u \<Longrightarrow> c \<in> set (cards s) \<Longrightarrow>
           c_deck_id c = Some (d_id d) \<Longrightarrow> get_card (delete_user_row s u) (c_id c) = None"
    and "d' \<in> set (decks (delete_user_row s u)) \<Longrightarrow> d_user_id d' \<noteq> Some u"
    and "c' \<in> set (cards (delete_user_row s u)) \<Longrightarrow> c_user_id c' \<noteq> Some u"
proof -
  let ?P = "\<lambda>c. c_user_id c \<noteq> Some u \<and>
      (case c_deck_id c of None \<Rightarrow> True | Some k \<Rightarrow> k \<notin> set (map d_id (user_decks s u)))"
  have cs: "cards (delete_user_row s u) = filter ?P (cards s)"
    by (simp add: delete_user_row_def Let_def)
  have ds: "decks (delete_user_row s u) = filter (\<lambda>d. d_user_id d \<noteq> Some u) (decks s)"
    by (simp add: delete_user_row_def Let_def)
  from pk have dc: "distinct (map c_id (cards s))" and dd: "distinct (map d_id (decks s))"
    by (simp_all add: pk_unique_def)
  show "user_delete_by_id s u = (True, delete_user_row s u)"
    using g by (simp add: user_delete_by_id_def)
  show "get_user (delete_user_row s u) u = None"
    by (simp add: get_user_def delete_user_row_def Let_def find_filter_other)
  show "d' \<in> set (decks (delete_user_row s u)) \<Longrightarrow> d_user_id d' \<noteq> Some u"
    by (simp add: ds)
  show "c' \<in> set (cards (delete_user_row s u)) \<Longrightarrow> c_user_id c' \<noteq> Some u"
    by (simp add: cs)
  show "get_deck (delete_user_row s u) (d_id d) = None"
    if "d \<in> set (decks s)" "d_user_id d = Some u"
    using find_filter_gone [OF dd that(1), of "\<lambda>d. d_user_id d \<noteq> Some u"] that(2)
    by (simp add: get_deck_def ds)
  show "get_card (delete_user_row s u) (c_id c) = None"
    if "c \<in> set (cards s)" "c_user_id c = Some u"
    using find_filter_gone [OF dc that(1), of ?P] that(2)
    by (simp add: get_card_def cs)
  show "get_card (delete_user_row s u) (c_id c) = None"
    if "d \<in> set (decks s)" "d_user_id d = Some u" "c \<in> set (cards s)"
      "c_deck_id c = Some (d_id d)"
  proof -
    from that(1,2) have "d_id d \<in> set (map d_id (user_decks s u))"
      by (simp add: user_decks_def)
    with that(4) have "\<not> ?P c" by simp
    from find_filter_gone [OF dc that(3), of ?P, OF this]
    show ?thesis by (simp add: get_card_def cs)
  qed
qed

lemma case_option_all: "(case x of None \<Rightarrow> True | Some v \<Rightarrow> P v) \<longleftrightarrow> (\<forall>v. x = Some v \<longrightarrow> P v)"
  by (cases x) auto

lemma no_orphans_iff:
  "no_orphans s \<longleftrightarrow>
     (\<forall>d\<in>set (decks s). \<forall>v. d_user_id d = Some v \<longrightarrow> get_user s v \<noteq> None) \<and>
     (\<forall>c\<in>set (cards s). (\<forall>v. c_user_id c = Some v \<longrightarrow> get_user s v \<noteq> None) \<and>
                          (\<forall>k. c_deck_id c = Some k \<longrightarrow> get_deck s k \<noteq> None))"
  by (simp add: no_orphans_def list_all_iff case_option_all)

lemma no_orphans_delete_deck_row:
  assumes "no_orphans s"
  shows "no_orphans (delete_deck_row s i)"
proof -
  let ?s' = "delete_deck_row s i"
  have u: "get_user ?s' v = get_user s v" for v
    by (simp add: get_user_def delete_deck_row_def)
  have k: "get_deck ?s' k = get_deck s k" if "k \<noteq> i" for k
    using that by (simp add: get_deck_def delete_deck_row_def find_filter_pass)
  have d: "d \<in> set (decks s)" if "d \<in> set (decks ?s')" for d
    using that by (simp add: delete_deck_row_def)
  have c: "c \<in> set (cards s) \<and> c_deck_id c \<noteq> Some i" if "c \<in> set (cards ?s')" for c
    using that by (simp add: delete_deck_row_def)
  show ?thesis
    unfolding no_orphans_iff
  proof (intro conjI ballI allI impI)
    fix x v assume "x \<in> set (decks ?s')" "d_user_id x = Some v"
    with assms d show "get_user ?s' v \<noteq> None" by (auto simp: no_orphans_iff u)
  next
    fix x v assume "x \<in> set (cards ?s')" "c_user_id x = Some v"
    with assms c show "get_user ?s' v \<noteq> None" by (auto simp: no_orphans_iff u)
  next
    fix x j assume x: "x \<in> set (cards ?s')" "c_deck_id x = Some j"
    with c have "j \<noteq> i" by auto
    moreover from x c assms have "get_deck s j \<noteq> None" by (auto simp: no_orphans_iff)
    ultimately show "get_deck ?s' j \<noteq> None" by (simp add: k)
  qed
qed

lemma no_orphans_delete_user_row:
  assumes "no_orphans s"
  shows "no_orphans (delete_user_row s u)"
proof -
  let ?s' = "delete_user_row s u"
  let ?gone = "set (map d_id (user_decks s u))"
  have usr: "get_user ?s' v = get_user s v" if "v \<noteq> u" for v
    using that by (simp add: get_user_def delete_user_row_def Let_def find_filter_pass)
  have dk: "get_deck ?s' j = get_deck s j" if "j \<notin> ?gone" for j
  proof -
    have "d_user_id x \<noteq> Some u" if "x \<in> set (decks s)" "d_id x = j" for x
      using that \<open>j \<notin> ?gone\<close> by (auto simp: user_decks_def)
    then show ?thesis
      by (simp add: get_deck_def delete_user_row_def Let_def find_filter_pass)
  qed
  have d: "d \<in> set (decks s) \<and> d_user_id d \<noteq> Some u" if "d \<in> set (decks ?s')" for d
    using that by (simp add: delete_user_row_def Let_def)
  have c: "c \<in> set (cards s) \<and> c_user_id c \<noteq> Some u \<and>
           (\<forall>j. c_deck_id c = Some j \<longrightarrow> j \<notin> ?gone)" if "c \<in> set (cards ?s')" for c
    using that by (auto simp: delete_user_row_def Let_def)
  show ?thesis
    unfolding no_orphans_iff
  proof (intro conjI ballI allI impI)
    fix x v assume x: "x \<in> set (decks ?s')" "d_user_id x = Some v"
    with d have "v \<noteq> u" by auto
    moreover from x d assms have "get_user s v \<noteq> None" by (auto simp: no_orphans_iff)
    ultimately show "get_user ?s' v \<noteq> None" by (simp add: usr)
  next
    fix x v assume x: "x \<in> set (cards ?s')" "c_user_id x = Some v"
    with c have "v \<noteq> u" by auto
    moreover from x c assms have "get_user s v \<noteq> None" by (auto simp: no_orphans_iff)
    ultimately show "get_user ?s' v \<noteq> None" by (simp add: usr)
  next
    fix x j assume x: "x \<in> set (cards ?s')" "c_deck_id x = Some j"
    with c have "j \<notin> ?gone" by blast
    moreover from x c assms have "get_deck s j \<noteq> None" by (auto simp: no_orphans_iff)
    ultimately show "get_deck ?s' j \<noteq> None" by (simp add: dk)
  qed
qed

text \<open>
  Claim C2.  In a database whose primary keys are unique (every reachable one):
  \<open>deck_delete_by_id\<close> of an existing deck returns \<open>True\<close>, the deck is gone, and
  \<open>card_get_by_id\<close> is \<open>None\<close> for every card that had the deck's id as \<open>deck_id\<close>;
  \<open>user_delete_by_id\<close> of an existing user returns \<open>True\<close>, the user is gone, and so
  are every deck of the user, every card in such a deck and every card of the user.
  No row that is left refers to the deleted deck or user, and a database in which every
  foreign key names an existing row is still one after either delete.
\<close>

theorem cascade_delete:
  assumes "pk_unique s"
  shows "(deck_get_by_id s i \<noteq> None \<longrightarrow>
            fst (deck_delete_by_id s i) \<and>
            deck_get_by_id (snd (deck_delete_by_id s i)) i = None \<and>
            (\<forall>c\<in>set (cards s). c_deck_id c = Some i \<longrightarrow>
               card_get_by_id (snd (deck_delete_by_id s i)) (c_id c) = None) \<and>
            (\<forall>c\<in>set (cards (snd (deck_delete_by_id s i))). c_deck_id c \<noteq> Some i)) \<and>
         (user_get_by_id s u \<noteq> None \<longrightarrow>
            fst (user_delete_by_id s u) \<and>
            user_get_by_id (snd (user_delete_by_id s u)) u = None \<and>
            (\<forall>d\<in>set (decks s). d_user_id d = Some u \<longrightarrow>
               deck_get_by_id (snd (user_delete_by_id s u)) (d_id d) = None \<and>
               (\<forall>c\<in>set (cards s). c_deck_id c = Some (d_id d) \<longrightarrow>
                  card_get_by_id (snd (user_delete_by_id s u)) (c_id c) = None)) \<and>
            (\<forall>c\<in>set (cards s). c_user_id c = Some u \<longrightarrow>
               card_get_by_id (snd (user_delete_by_id s u)) (c_id c) = None) \<and>
            (\<forall>d\<in>set (decks (snd (user_delete_by_id s u))). d_user_id d \<noteq> Some u) \<and>
            (\<forall>c\<in>set (cards (snd (user_delete_by_id s u))). c_user_id c \<noteq> Some u)) \<and>
         (no_orphans s \<longrightarrow>
            no_orphans (snd (deck_delete_by_id s i)) \<and>
            no_orphans (snd (user_delete_by_id s u)))"
proof (intro conjI impI)
  assume "deck_get_by_id s i \<noteq> None"
  then obtain d where g: "get_deck s i = Some d" by (auto simp: deck_get_by_id_def)
  note r = deck_delete_cascade [OF assms g]
  show "fst (deck_delete_by_id s i)" by (simp add: r(1))
  show "deck_get_by_id (snd (deck_delete_by_id s i)) i = None"
    by (simp add: r(1,2) deck_get_by_id_def)
  show "\<forall>c\<in>set (cards s). c_deck_id c = Some i \<longrightarrow>
          card_get_by_id (snd (deck_delete_by_id s i)) (c_id c) = None"
    by (simp add: r(1,3) card_get_by_id_def)
  show "\<forall>c\<in>set (cards (snd (deck_delete_by_id s i))). c_deck_id c \<noteq> Some i"
    using r(4) by (simp add: r(1))
next
  assume "user_get_by_id s u \<noteq> None"
  then obtain usr where g: "get_user s u = Some usr" by (auto simp: user_get_by_id_def)
  note r = user_delete_cascade [OF assms g]
  show "fst (user_delete_by_id s u)" by (simp add: r(1))
  show "user_get_by_id (snd (user_delete_by_id s u)) u = None"
    by (simp add: r(1,2) user_get_by_id_def)
  show "\<forall>d\<in>set (decks s). d_user_id d = Some u \<longrightarrow>
          deck_get_by_id (snd (user_delete_by_id s u)) (d_id d) = None \<and>
          (\<forall>c\<in>set (cards s). c_deck_id c = Some (d_id d) \<longrightarrow>
             card_get_by_id (snd (user_delete_by_id s u)) (c_id c) = None)"
    using r(3,5) by (simp add: r(1) deck_get_by_id_def card_get_by_id_def)
  show "\<forall>c\<in>set (cards s). c_user_id c = Some u \<longrightarrow>
          card_get_by_id (snd (user_delete_by_id s u)) (c_id c) = None"
    using r(4) by (simp add: r(1) card_get_by_id_def)
  show "\<forall>d\<in>set (decks (snd (user_delete_by_id s u))). d_user_id d \<noteq> Some u"
    using r(6) by (simp add: r(1))
  show "\<forall>c\<in>set (cards (snd (user_delete_by_id s u))). c_user_id c \<noteq> Some u"
    using r(7) by (simp add: r(1))
next
  assume n: "no_orphans s"
  show "no_orphans (snd (deck_delete_by_id s i))"
    using n no_orphans_delete_deck_row [OF n, of i]
    by (simp add: deck_delete_by_id_def split: option.splits)
  show "no_orphans (snd (user_delete_by_id s u))"
    using n no_orphans_delete_user_row [OF n, of u]
    by (simp add: user_delete_by_id_def split: option.splits)
qed

theorem cascade_delete_witness:
  "pk_unique db0 \<and> no_orphans db0 \<and>
   deck_get_by_id db0 1 \<noteq> None \<and> fst (deck_delete_by_id db0 1) \<and>
   deck_get_by_id (snd (deck_delete_by_id db0 1)) 1 = None \<and>
   card1 \<in> set (cards db0) \<and> c_deck_id card1 = Some 1 \<and>
   card_get_by_id (snd (deck_delete_by_id db0 1)) (c_id card1) = None \<and>
   cards (snd (deck_delete_by_id db0 1)) = [card3] \<and>
   user_get_by_id db0 1 \<noteq> None \<and> fst (user_delete_by_id db0 1) \<and>
   snd (user_delete_by_id db0 1) = \<lparr>users = [bob], decks = [deck2], cards = [card3]\<rparr> \<and>
   no_orphans (snd (deck_delete_by_id db0 1)) \<and> no_orphans (snd (user_delete_by_id db0 1))"
proof -
  have pk: "pk_unique db0" by (simp add: pk_unique_def db0_defs)
  have no: "no_orphans db0" by (simp add: no_orphans_def get_user_def get_deck_def db0_defs)
  have d: "deck_get_by_id db0 1 \<noteq> None" by (simp add: deck_get_by_id_def get_deck_def db0_defs)
  have u: "user_get_by_id db0 1 \<noteq> None" by (simp add: user_get_by_id_def get_user_def db0_defs)
  have c: "card1 \<in> set (cards db0)" "c_deck_id card1 = Some 1" by (simp_all add: db0_defs)
  have dd: "cards (snd (deck_delete_by_id db0 1)) = [card3]"
    by (simp add: deck_delete_by_id_def delete_deck_row_def get_deck_def db0_defs)
  have ud: "snd (user_delete_by_id db0 1) = \<lparr>users = [bob], decks = [deck2], cards = [card3]\<rparr>"
    by (simp add: user_delete_by_id_def delete_user_row_def user_decks_def get_user_def
        Let_def db0_defs)
  from cascade_delete [OF pk, of 1 1] pk no d u c dd ud show ?thesis by simp
qed

section \<open>Filtering cards\<close>

text \<open>
  \<open>lower\<close> changes the upper-case ASCII letters only; it neither makes nor removes a
  wildcard character.
\<close>

lemma of_char_sql_lower_char:
  "(of_char (sql_lower_char c) :: nat) =
     (if 65 \<le> (of_char c :: nat) \<and> (of_char c :: nat) \<le> 90 then of_char c + 32 else of_char c)"
  by (simp add: sql_lower_char_def Let_def)

lemma sql_lower_char_idem: "sql_lower_char (sql_lower_char c) = sql_lower_char c"
proof -
  have "(of_char (sql_lower_char (sql_lower_char c)) :: nat) = of_char (sql_lower_char c)"
    by (simp add: of_char_sql_lower_char)
  then show ?thesis by (simp only: of_char_eq_iff)
qed

lemma sql_lower_char_percent: "sql_lower_char c = CHR ''%'' \<longleftrightarrow> c = CHR ''%''"
proof -
  have "(of_char (sql_lower_char c) :: nat) = of_char (CHR ''%'') \<longleftrightarrow>
        (of_char c :: nat) = of_char (CHR ''%'')"
    by (simp add: of_char_sql_lower_char)
  then show ?thesis by (simp only: of_char_eq_iff)
qed

lemma sql_lower_char_underscore: "sql_lower_char c = CHR ''_'' \<longleftrightarrow> c = CHR ''_''"
proof -
  have "(of_char (sql_lower_char c) :: nat) = of_char (CHR ''_'') \<longleftrightarrow>
        (of_char c :: nat) = of_char (CHR ''_'')"
    by (simp add: of_char_sql_lower_char)
  then show ?thesis by (simp only: of_char_eq_iff)
qed

lemma sql_lower_percent: "CHR ''%'' \<in> set (sql_lower t) \<longleftrightarrow> CHR ''%'' \<in> set t"
proof (induction t)
  case Nil
  show ?case by (simp add: sql_lower_def)
next
  case (Cons a t)
  have "CHR ''%'' = sql_lower_char a \<longleftrightarrow> CHR ''%'' = a"
    unfolding eq_commute [of "CHR ''%''"] by (rule sql_lower_char_percent)
  with Cons show ?case by (simp add: sql_lower_def)
qed

lemma sql_lower_underscore: "CHR ''_'' \<in> set (sql_lower t) \<longleftrightarrow> CHR ''_'' \<in> set t"
proof (induction t)
  case Nil
  show ?case by (simp add: sql_lower_def)
next
  case (Cons a t)
  have "CHR ''_'' = sql_lower_char a \<longleftrightarrow> CHR ''_'' = a"
    unfolding eq_commute [of "CHR ''_''"] by (rule sql_lower_char_underscore)
  with Cons show ?case by (simp add: sql_lower_def)
qed

text \<open>
  A pattern without wildcards followed by \<open>%\<close> matches the texts it is a prefix of, and
  between two \<open>%\<close> the texts it occurs in.
\<close>

lemma sql_like_percent: "sql_like [CHR ''%''] t"
  by (induction t) simp_all

lemma sql_like_prefix:
  "CHR ''%'' \<notin> set p \<Longrightarrow> CHR ''_'' \<notin> set p \<Longrightarrow>
   sql_like (p @ [CHR ''%'']) t = prefix (map sql_lower_char p) (map sql_lower_char t)"
proof (induction p arbitrary: t)
  case Nil
  show ?case by (simp add: sql_like_percent)
next
  case (Cons a p)
  then have a: "a \<noteq> CHR ''%''" "a \<noteq> CHR ''_''" and
    ih: "\<And>t. sql_like (p @ [CHR ''%'']) t = prefix (map sql_lower_char p) (map sql_lower_char t)"
    by auto
  show ?case
  proof (cases t)
    case Nil
    with a show ?thesis by simp
  next
    case (Cons c cs)
    with a ih show ?thesis by simp
  qed
qed

lemma sql_like_sublist:
  assumes "CHR ''%'' \<notin> set p" and "CHR ''_'' \<notin> set p"
  shows "sql_like (CHR ''%'' # p @ [CHR ''%'']) t =
         sublist (map sql_lower_char p) (map sql_lower_char t)"
proof (induction t)
  case Nil
  have "sql_like (CHR ''%'' # p @ [CHR ''%'']) [] = sql_like (p @ [CHR ''%'']) []" by simp
  also have "\<dots> = prefix (map sql_lower_char p) (map sql_lower_char [])"
    using assms by (rule sql_like_prefix)
  finally show ?case by simp
next
  case (Cons c cs)
  have "sql_like (CHR ''%'' # p @ [CHR ''%'']) (c # cs) =
        (sql_like (p @ [CHR ''%'']) (c # cs) \<or> sql_like (CHR ''%'' # p @ [CHR ''%'']) cs)"
    by simp
  also have "sql_like (p @ [CHR ''%'']) (c # cs) =
        prefix (map sql_lower_char p) (map sql_lower_char (c # cs))"
    using assms by (rule sql_like_prefix)
  finally show ?case by (simp add: Cons.IH sublist_Cons_right)
qed

lemma ilike_substring:
  assumes "CHR ''%'' \<notin> set sub" and "CHR ''_'' \<notin> set sub"
  shows "ilike t (''%'' @ sub @ ''%'') = occurs_in sub t"
proof -
  have p: "CHR ''%'' \<notin> set (sql_lower sub)" "CHR ''_'' \<notin> set (sql_lower sub)"
    using assms by (simp_all only: sql_lower_percent sql_lower_underscore not_False_eq_True)
  have l: "sql_lower (''%'' @ sub @ ''%'') = CHR ''%'' # sql_lower sub @ [CHR ''%'']"
    by (simp add: sql_lower_def sql_lower_char_percent)
  have i: "map sql_lower_char (sql_lower x) = sql_lower x" for x
    by (simp add: sql_lower_def sql_lower_char_idem)
  show ?thesis
    unfolding ilike_def l occurs_in_def
    by (simp only: sql_like_sublist [OF p] i)
qed

text \<open>
  On a search string with neither \<open>%\<close> nor \<open>_\<close> in it, \<open>card_filter\<close> returns exactly the
  cards in whose word, translation or tip (when the tip is not NULL) the string occurs,
  in the order of the table.
\<close>

theorem card_filter_substring:
  assumes "CHR ''%'' \<notin> set sub_word" and "CHR ''_'' \<notin> set sub_word"
  shows "card_filter s sub_word =
           filter (\<lambda>c. occurs_in sub_word (c_word c) \<or>
                        occurs_in sub_word (c_translation c) \<or>
                        (case c_tip c of None \<Rightarrow> False | Some t \<Rightarrow> occurs_in sub_word t))
                  (cards s)"
  by (simp only: card_filter_def Let_def ilike_substring [OF assms])


lemma char_of_lower:
  "char_of (103::nat) = CHR ''g''" "char_of (108::nat) = CHR ''l''"
  "char_of (111::nat) = CHR ''o''" "char_of (114::nat) = CHR ''r''"
  "char_of (115::nat) = CHR ''s''"
proof -
  have "(of_char (char_of (103::nat)) :: nat) = of_char (CHR ''g'')"
    "(of_char (char_of (108::nat)) :: nat) = of_char (CHR ''l'')"
    "(of_char (char_of (111::nat)) :: nat) = of_char (CHR ''o'')"
    "(of_char (char_of (114::nat)) :: nat) = of_char (CHR ''r'')"
    "(of_char (char_of (115::nat)) :: nat) = of_char (CHR ''s'')"
    by simp_all
  then show "char_of (103::nat) = CHR ''g''" "char_of (108::nat) = CHR ''l''"
    "char_of (111::nat) = CHR ''o''" "char_of (114::nat) = CHR ''r''"
    "char_of (115::nat) = CHR ''s''"
    by (simp_all only: of_char_eq_iff)
qed

lemmas like_eval = card_filter_def ilike_def sql_lower_def sql_lower_char_def utf8_skip_def
  Let_def char_of_lower db0_defs

lemma card_filter_substring_example:
  "card_filter db0 ''orl'' = [card1] \<and> card_filter db0 ''ORL'' = [card1] \<and>
   card_filter db0 ''s'' = [card4] \<and> card_filter db0 [] = [card1, card2, card3, card4]"
proof -
  have a: "card_filter db0 ''orl'' = [card1]"
    by (subst card_filter_substring) (simp_all add: occurs_in_def like_eval sublist_Cons_right)
  have b: "card_filter db0 ''ORL'' = [card1]"
    by (subst card_filter_substring) (simp_all add: occurs_in_def like_eval sublist_Cons_right)
  have c: "card_filter db0 ''s'' = [card4]"
    by (subst card_filter_substring) (simp_all add: occurs_in_def like_eval sublist_Cons_right)
  have d: "card_filter db0 [] = [card1, card2, card3, card4]"
    by (subst card_filter_substring) (simp_all add: occurs_in_def like_eval)
  from a b c d show ?thesis by simp
qed

text \<open>
  Claim C6.  \<open>card_filter\<close> puts the search string between two \<open>%\<close> as it is, so a \<open>%\<close>
  or \<open>_\<close> in it is a wildcard of LIKE and not a character to find.  On \<open>h_llo\<close> it
  returns the card (hello, world, Greeting), though \<open>h_llo\<close> occurs in none of the three
  fields; on \<open>%\<close> it returns every card, also those with no \<open>%\<close> in any field.
\<close>

theorem card_filter_wildcard:
  "card_filter db0 ''h_llo'' = [card1] \<and>
   c_word card1 = ''hello'' \<and> c_translation card1 = ''world'' \<and>
   c_tip card1 = Some ''Greeting'' \<and>
   \<not> occurs_in ''h_llo'' ''hello'' \<and> \<not> occurs_in ''h_llo'' ''world'' \<and>
   \<not> occurs_in ''h_llo'' ''Greeting'' \<and>
   \<not> sublist ''h_llo'' ''hello'' \<and> \<not> sublist ''h_llo'' ''world'' \<and>
   \<not> sublist ''h_llo'' ''greeting'' \<and>
   card_filter db0 ''%'' = [card1, card2, card3, card4] \<and>
   \<not> occurs_in ''%'' ''cat'' \<and> \<not> occurs_in ''%'' ''kit''"
proof -
  have a: "card_filter db0 ''h_llo'' = [card1]" by (simp add: like_eval)
  have b: "c_word card1 = ''hello''" "c_translation card1 = ''world''"
    "c_tip card1 = Some ''Greeting''"
    by (simp_all add: card1_def)
  have c: "\<not> occurs_in ''h_llo'' ''hello''" "\<not> occurs_in ''h_llo'' ''world''"
    "\<not> occurs_in ''h_llo'' ''Greeting''"
    by (simp_all add: occurs_in_def like_eval sublist_Cons_right)
  have d: "\<not> sublist ''h_llo'' ''hello''" "\<not> sublist ''h_llo'' ''world''"
    "\<not> sublist ''h_llo'' ''greeting''"
    by (simp_all add: sublist_Cons_right)
  have e: "card_filter db0 ''%'' = [card1, card2, card3, card4]" by (simp add: like_eval)
  have f: "\<not> occurs_in ''%'' ''cat''" "\<not> occurs_in ''%'' ''kit''"
    by (simp_all add: occurs_in_def like_eval sublist_Cons_right)
  from a b c d e f show ?thesis by simp
qed

end
